theory Spec2Isabelle
  imports Main "HOL-Library.Word"
begin

unbundle bit_operations_syntax

section \<open>Data model of package gosed (main.go)\<close>

text \<open>
  Go's \<^verbatim>\<open>int64\<close> is a 64-bit word whose \<open>+\<close> wraps. Go's \<^verbatim>\<open>int\<close> is taken to be
  64 bits wide as well (amd64, arm64), so the conversions \<^verbatim>\<open>int(wrote)\<close> and
  \<^verbatim>\<open>int64(wrote)\<close> of the source keep every bit. A \<^verbatim>\<open>[]byte\<close> is a list of 8-bit
  words, a Go string a list of characters, \<^verbatim>\<open>os.FileMode\<close> a 32-bit word.
\<close>

type_synonym int64 = "64 word"
type_synonym go_int = "64 word"
type_synonym FileMode = "32 word"
type_synonym bytes = "8 word list"

definition int_of_int64 :: "int64 \<Rightarrow> go_int" where
  "int_of_int64 n = scast n"

definition int64_of_int :: "go_int \<Rightarrow> int64" where
  "int64_of_int n = scast n"

definition bytes_of_string :: "string \<Rightarrow> bytes" where
  "bytes_of_string s = map of_char s"

text \<open>\<^verbatim>\<open>fd.Mode().Perm()\<close>: the nine permission bits, \<^verbatim>\<open>m & 0777\<close>.\<close>

definition Perm :: "FileMode \<Rightarrow> FileMode" where
  "Perm m = m AND 511"

text \<open>
  The values of Go's \<^verbatim>\<open>error\<close> interface that the package can return: the one it builds
  itself with \<^verbatim>\<open>fmt.Errorf\<close>, \<^verbatim>\<open>os.ErrInvalid\<close> (a method called on a nil
  \<^verbatim>\<open>*os.File\<close>), and any error handed back by the operating system, told apart by a number.
\<close>

datatype error =
    ErrEmptyOld
  | ErrInvalid
  | ErrOS nat

text \<open>A run-time panic ends the call without a return value.\<close>

datatype panic =
    IndexOutOfRange nat nat
  | InvalidMapping

datatype 'a outcome =
    Returned 'a
  | Panicked panic

text \<open>An open \<^verbatim>\<open>*os.File\<close> is identified by the number of its allocation.\<close>

datatype os_file = OsFile nat

datatype flag = O_RDWR | O_CREATE

text \<open>
  The \<^verbatim>\<open>io.Reader\<close> values the package builds: a file, a \<^verbatim>\<open>bufio.Reader\<close> of a given
  size over a reader, and a \<^verbatim>\<open>BytesReplacingReader\<close> over a reader with its pattern and
  its replacement.
\<close>

datatype reader =
    FileReader os_file
  | BufioReader reader nat
  | BytesReplacingReader reader bytes bytes

record replacerMappings =
  Keys :: "bytes list"
  Indices :: "bytes list"

record replacerConfig =
  File :: "os_file option"
  FilePath :: string
  FileSize :: int64
  FilePerm :: FileMode
  Asynchronous :: bool
  Mappings :: replacerMappings

record Replacer =
  Config :: replacerConfig

section \<open>The operating system as an environment\<close>

text \<open>
  Every call that leaves the process (clock, stat, open, close, copy, remove, rename) is
  answered by the environment. An environment gives, for the number of calls made so far
  and the arguments of the call, the answer of the operating system; the world records
  every call with its answer, in order, and counts the file objects allocated.
  \<^verbatim>\<open>io.CopyBuffer\<close> answers with the number of bytes written and an optional error, and
  both can be present, as in Go.
\<close>

datatype event =
    EvNow int64
  | EvStat string "error + (int64 \<times> FileMode)"
  | EvOpenFile string "flag list" FileMode "error + os_file"
  | EvClose os_file "error option"
  | EvCopy os_file reader int64 "error option"
  | EvRemove string "error option"
  | EvRename string string "error option"

record env =
  env_now :: "nat \<Rightarrow> int64"
  env_stat :: "nat \<Rightarrow> string \<Rightarrow> error + (int64 \<times> FileMode)"
  env_open :: "nat \<Rightarrow> string \<Rightarrow> flag list \<Rightarrow> FileMode \<Rightarrow> error option"
  env_close :: "nat \<Rightarrow> os_file \<Rightarrow> error option"
  env_copy :: "nat \<Rightarrow> os_file \<Rightarrow> reader \<Rightarrow> int64 \<times> error option"
  env_remove :: "nat \<Rightarrow> string \<Rightarrow> error option"
  env_rename :: "nat \<Rightarrow> string \<Rightarrow> string \<Rightarrow> error option"

record world =
  trace :: "event list"
  files :: nat

definition emit :: "event \<Rightarrow> world \<Rightarrow> world" where
  "emit e w = w\<lparr>trace := trace w @ [e]\<rparr>"

definition time_Now_UnixNano :: "env \<Rightarrow> world \<Rightarrow> int64 \<times> world" where
  "time_Now_UnixNano E w =
     (let t = env_now E (length (trace w)) in (t, emit (EvNow t) w))"

definition os_Stat :: "env \<Rightarrow> string \<Rightarrow> world \<Rightarrow> (error + (int64 \<times> FileMode)) \<times> world" where
  "os_Stat E name w =
     (let r = env_stat E (length (trace w)) name in (r, emit (EvStat name r) w))"

definition os_OpenFile ::
  "env \<Rightarrow> string \<Rightarrow> flag list \<Rightarrow> FileMode \<Rightarrow> world \<Rightarrow> (error + os_file) \<times> world" where
  "os_OpenFile E name flags perm w =
     (case env_open E (length (trace w)) name flags perm of
        Some err \<Rightarrow> (Inl err, emit (EvOpenFile name flags perm (Inl err)) w)
      | None \<Rightarrow>
          (Inr (OsFile (files w)),
           (emit (EvOpenFile name flags perm (Inr (OsFile (files w)))) w)\<lparr>files := Suc (files w)\<rparr>))"

definition os_Close :: "env \<Rightarrow> os_file \<Rightarrow> world \<Rightarrow> error option \<times> world" where
  "os_Close E f w =
     (let r = env_close E (length (trace w)) f in (r, emit (EvClose f r) w))"

text \<open>\<^verbatim>\<open>(*os.File).Close\<close> on a nil receiver returns \<^verbatim>\<open>os.ErrInvalid\<close> without a call.\<close>

definition File_Close :: "env \<Rightarrow> os_file option \<Rightarrow> world \<Rightarrow> error option \<times> world" where
  "File_Close E fo w =
     (case fo of None \<Rightarrow> (Some ErrInvalid, w) | Some f \<Rightarrow> os_Close E f w)"

definition io_CopyBuffer ::
  "env \<Rightarrow> os_file \<Rightarrow> reader \<Rightarrow> world \<Rightarrow> (int64 \<times> error option) \<times> world" where
  "io_CopyBuffer E dst src w =
     (let r = env_copy E (length (trace w)) dst src
      in (r, emit (EvCopy dst src (fst r) (snd r)) w))"

definition os_Remove :: "env \<Rightarrow> string \<Rightarrow> world \<Rightarrow> error option \<times> world" where
  "os_Remove E name w =
     (let r = env_remove E (length (trace w)) name in (r, emit (EvRemove name r) w))"

definition os_Rename :: "env \<Rightarrow> string \<Rightarrow> string \<Rightarrow> world \<Rightarrow> error option \<times> world" where
  "os_Rename E old new w =
     (let r = env_rename E (length (trace w)) old new in (r, emit (EvRename old new r) w))"

section \<open>Registering mappings\<close>

definition set_Mappings :: "replacerMappings \<Rightarrow> Replacer \<Rightarrow> Replacer" where
  "set_Mappings m rp = rp\<lparr>Config := (Config rp)\<lparr>Mappings := m\<rparr>\<rparr>"

definition NewReplacer :: "env \<Rightarrow> string \<Rightarrow> world \<Rightarrow> (error + Replacer) \<times> world" where
  "NewReplacer E fileName w =
     (case os_Stat E fileName w of
        (Inl err, w1) \<Rightarrow> (Inl err, w1)
      | (Inr (sz, mode), w1) \<Rightarrow>
          (case os_OpenFile E fileName [O_RDWR] (Perm mode) w1 of
             (Inl err, w2) \<Rightarrow> (Inl err, w2)
           | (Inr fi, w2) \<Rightarrow>
               (Inr \<lparr>Config = \<lparr>File = Some fi, FilePath = fileName, FileSize = sz,
                              FilePerm = Perm mode, Asynchronous = False,
                              Mappings = \<lparr>Keys = [], Indices = []\<rparr>\<rparr>\<rparr>, w2)))"

definition NewMapping :: "Replacer \<Rightarrow> bytes \<Rightarrow> bytes \<Rightarrow> error option \<times> Replacer" where
  "NewMapping rp oldString newString =
     (if length oldString = 0 then (Some ErrEmptyOld, rp)
      else (None,
            set_Mappings
              \<lparr>Keys = Keys (Mappings (Config rp)) @ [oldString],
               Indices = Indices (Mappings (Config rp)) @ [newString]\<rparr> rp))"

definition NewStringMapping :: "Replacer \<Rightarrow> string \<Rightarrow> string \<Rightarrow> error option \<times> Replacer" where
  "NewStringMapping rp oldString newString =
     (if oldString = [] then (Some ErrEmptyOld, rp)
      else (None,
            set_Mappings
              \<lparr>Keys = Keys (Mappings (Config rp)) @ [bytes_of_string oldString],
               Indices = Indices (Mappings (Config rp)) @ [bytes_of_string newString]\<rparr> rp))"

text \<open>
  \<^verbatim>\<open>Reset\<close>: close the working file, stat its path, reopen it (the result is stored in
  \<^verbatim>\<open>rp.Config.File\<close> before the error is looked at, so a failed open leaves nil there),
  and only then truncate both mapping slices and refresh the permission bits.
\<close>

definition Reset :: "env \<Rightarrow> Replacer \<Rightarrow> world \<Rightarrow> error option \<times> Replacer \<times> world" where
  "Reset E rp w =
     (case File_Close E (File (Config rp)) w of
        (Some err, w1) \<Rightarrow> (Some err, rp, w1)
      | (None, w1) \<Rightarrow>
          (case os_Stat E (FilePath (Config rp)) w1 of
             (Inl err, w2) \<Rightarrow> (Some err, rp, w2)
           | (Inr (sz, mode), w2) \<Rightarrow>
               (case os_OpenFile E (FilePath (Config rp)) [O_RDWR] (Perm mode) w2 of
                  (Inl err, w3) \<Rightarrow> (Some err, rp\<lparr>Config := (Config rp)\<lparr>File := None\<rparr>\<rparr>, w3)
                | (Inr fi, w3) \<Rightarrow>
                    (None,
                     rp\<lparr>Config := (Config rp)
                          \<lparr>File := Some fi,
                           Mappings := \<lparr>Keys = take 0 (Keys (Mappings (Config rp))),
                                        Indices = take 0 (Indices (Mappings (Config rp)))\<rparr>,
                           FilePerm := Perm mode\<rparr>\<rparr>, w3))))"

section \<open>Scratch file names\<close>

text \<open>
  \<^verbatim>\<open>fmt.Sprintf("tmp-gosed-%d", n)\<close> prints the signed value of \<open>n\<close> in decimal.
\<close>

definition digit_char :: "nat \<Rightarrow> char" where
  "digit_char d = ''0123456789'' ! d"

fun dec_nat :: "nat \<Rightarrow> string" where
  "dec_nat n = (if n < 10 then [digit_char n] else dec_nat (n div 10) @ [digit_char (n mod 10)])"

declare dec_nat.simps [simp del]

definition dec_int :: "int \<Rightarrow> string" where
  "dec_int i = (if i < 0 then CHR ''-'' # dec_nat (nat (- i)) else dec_nat (nat i))"

definition Sprintf_tmp_gosed :: "int64 \<Rightarrow> string" where
  "Sprintf_tmp_gosed n = ''tmp-gosed-'' @ dec_int (sint n)"

text \<open>
  Package \<^verbatim>\<open>path\<close> of the Go library. \<^verbatim>\<open>Clean\<close> works on the elements between
  slashes: empty elements and \<^verbatim>\<open>.\<close> are dropped, \<^verbatim>\<open>..\<close> removes the element before it
  when there is one that is not \<^verbatim>\<open>..\<close> itself, is dropped at the root and is kept
  otherwise; the empty result is \<^verbatim>\<open>.\<close>. \<^verbatim>\<open>Split\<close> cuts after the last slash,
  \<^verbatim>\<open>Dir\<close> cleans the first half, \<^verbatim>\<open>Join\<close> puts a slash between its arguments, leaving
  out the leading empty ones, and cleans the result.
\<close>

fun split_slash :: "string \<Rightarrow> string list" where
  "split_slash [] = [[]]"
| "split_slash (c # cs) =
     (if c = CHR ''/'' then [] # split_slash cs
      else (case split_slash cs of [] \<Rightarrow> [[c]] | e # es \<Rightarrow> (c # e) # es))"

fun join_slash :: "string list \<Rightarrow> string" where
  "join_slash [] = []"
| "join_slash [e] = e"
| "join_slash (e # e' # es) = e @ CHR ''/'' # join_slash (e' # es)"

definition clean_step :: "bool \<Rightarrow> string list \<Rightarrow> string \<Rightarrow> string list" where
  "clean_step rooted out e =
     (if e = ''..'' then
        (if out \<noteq> [] \<and> last out \<noteq> ''..'' then butlast out
         else if rooted then out
         else out @ [e])
      else out @ [e])"

definition path_Clean :: "string \<Rightarrow> string" where
  "path_Clean p =
     (if p = [] then ''.''
      else
        (let rooted = (hd p = CHR ''/'');
             elems = filter (\<lambda>e. e \<noteq> [] \<and> e \<noteq> ''.'') (split_slash p);
             out = foldl (clean_step rooted) [] elems;
             s = (if rooted then ''/'' else []) @ join_slash out
         in if s = [] then ''.'' else s))"

definition path_Split :: "string \<Rightarrow> string \<times> string" where
  "path_Split p =
     (rev (dropWhile (\<lambda>c. c \<noteq> CHR ''/'') (rev p)),
      rev (takeWhile (\<lambda>c. c \<noteq> CHR ''/'') (rev p)))"

definition path_Dir :: "string \<Rightarrow> string" where
  "path_Dir p = path_Clean (fst (path_Split p))"

definition join_step :: "string \<Rightarrow> string \<Rightarrow> string" where
  "join_step buf e =
     (if buf \<noteq> [] \<or> e \<noteq> [] then (if buf \<noteq> [] then buf @ ''/'' else buf) @ e else buf)"

definition path_Join :: "string list \<Rightarrow> string" where
  "path_Join elem =
     (if concat elem = [] then [] else path_Clean (foldl join_step [] elem))"

section \<open>The substituting reader\<close>

text \<open>
  Modelled from the spec: the type \<^verbatim>\<open>BytesReplacingReader\<close>, its constructor
  \<^verbatim>\<open>NewBytesReplacingReader\<close> and its method \<^verbatim>\<open>Reset\<close> belong to this package but
  their file is not among the sources. The specification says that the reader holds its
  upstream source, the pattern and the replacement, that construction with an empty
  pattern fails as an invalid mapping, and that reset rebinds the reader to a new
  upstream and a new mapping. The constructor returns one value in \<^verbatim>\<open>main.go\<close>, so its
  failure is a panic. The bytes a reader produces are part of what \<^verbatim>\<open>io.CopyBuffer\<close>
  answers, which is the environment's.
\<close>

definition NewBytesReplacingReader :: "reader \<Rightarrow> bytes \<Rightarrow> bytes \<Rightarrow> panic + reader" where
  "NewBytesReplacingReader r search replace =
     (if length search = 0 then Inl InvalidMapping
      else Inr (BytesReplacingReader r search replace))"

definition BytesReplacingReader_Reset :: "reader \<Rightarrow> bytes \<Rightarrow> bytes \<Rightarrow> reader" where
  "BytesReplacingReader_Reset r search replace = BytesReplacingReader r search replace"

definition bufio_NewReaderSize :: "os_file \<Rightarrow> nat \<Rightarrow> reader" where
  "bufio_NewReaderSize f n = BufioReader (FileReader f) n"

section \<open>The two replacement engines\<close>

text \<open>
  The deferred function of both engines receives the input and the output file and
  calls \<^verbatim>\<open>input.Close()\<close> twice, dropping both results. It is registered after both
  files are open and runs when the function returns or panics after that.
\<close>

definition deferred_Close :: "env \<Rightarrow> os_file \<Rightarrow> os_file \<Rightarrow> world \<Rightarrow> world" where
  "deferred_Close E input output w = snd (os_Close E input (snd (os_Close E input w)))"

type_synonym replace_result = "(go_int \<times> error option) outcome \<times> Replacer \<times> world"

definition set_FileSize :: "int64 \<Rightarrow> Replacer \<Rightarrow> Replacer" where
  "set_FileSize n rp = rp\<lparr>Config := (Config rp)\<lparr>FileSize := n\<rparr>\<rparr>"

text \<open>The closure \<^verbatim>\<open>DoSingleReplace\<close> of \<^verbatim>\<open>DoSequentialReplace\<close>: one pass for one mapping.\<close>

definition DoSingleReplace :: "env \<Rightarrow> Replacer \<Rightarrow> world \<Rightarrow> bytes \<Rightarrow> bytes \<Rightarrow> replace_result" where
  "DoSingleReplace E rp w old new =
     (case time_Now_UnixNano E w of (t, w1) \<Rightarrow>
     (let tmpFile = path_Join [path_Dir (FilePath (Config rp)), Sprintf_tmp_gosed t] in
     (case os_OpenFile E (FilePath (Config rp)) [O_RDWR] (FilePerm (Config rp)) w1 of
        (Inl err, w2) \<Rightarrow> (Returned (0, Some err), rp, w2)
      | (Inr input, w2) \<Rightarrow>
     (case os_OpenFile E tmpFile [O_RDWR, O_CREATE] (FilePerm (Config rp)) w2 of
        (Inl err, w3) \<Rightarrow> (Returned (0, Some err), rp, w3)
      | (Inr output, w3) \<Rightarrow>
     (let replacer = BytesReplacingReader_Reset (bufio_NewReaderSize input 8192) old new in
     (case io_CopyBuffer E output replacer w3 of
        ((wrote, Some err), w4) \<Rightarrow>
          (Returned (0, Some err), rp, deferred_Close E input output w4)
      | ((wrote, None), w4) \<Rightarrow>
     (case os_Rename E tmpFile (FilePath (Config rp)) w4 of
        (Some err, w5) \<Rightarrow>
          (Returned (0, Some err), rp, deferred_Close E input output w5)
      | (None, w5) \<Rightarrow>
          (Returned (int_of_int64 wrote, None), set_FileSize wrote rp,
           deferred_Close E input output w5))))))))"

text \<open>
  The \<^verbatim>\<open>range\<close> loop of \<^verbatim>\<open>DoSequentialReplace\<close> over the keys still to visit, with the
  statements after the loop as its last step: \<^verbatim>\<open>Indices[index]\<close> panics out of range,
  a failed pass returns the count so far with the error, a completed pass adds its count
  and records it as the file size; after the last key both slices are cut to length 0.
\<close>

fun sequential_range :: "env \<Rightarrow> Replacer \<Rightarrow> world \<Rightarrow> bytes list \<Rightarrow> nat \<Rightarrow> go_int \<Rightarrow> replace_result" where
  "sequential_range E rp w [] index count =
     (Returned (count, None),
      set_Mappings \<lparr>Keys = take 0 (Keys (Mappings (Config rp))),
                    Indices = take 0 (Indices (Mappings (Config rp)))\<rparr> rp,
      w)"
| "sequential_range E rp w (key # keys) index count =
     (if length (Indices (Mappings (Config rp))) \<le> index then
        (Panicked (IndexOutOfRange index (length (Indices (Mappings (Config rp))))), rp, w)
      else
        (case DoSingleReplace E rp w key (Indices (Mappings (Config rp)) ! index) of
           (Panicked p, rp1, w1) \<Rightarrow> (Panicked p, rp1, w1)
         | (Returned (wrote, Some err), rp1, w1) \<Rightarrow> (Returned (count, Some err), rp1, w1)
         | (Returned (wrote, None), rp1, w1) \<Rightarrow>
             sequential_range E (set_FileSize (int64_of_int wrote) rp1) w1 keys (Suc index)
               (count + wrote)))"

definition DoSequentialReplace :: "env \<Rightarrow> Replacer \<Rightarrow> world \<Rightarrow> replace_result" where
  "DoSequentialReplace E rp w = sequential_range E rp w (Keys (Mappings (Config rp))) 0 0"

text \<open>
  The \<^verbatim>\<open>range\<close> loop of \<^verbatim>\<open>DoChainReplace\<close>: index 0 is skipped, every later key wraps
  the reader built so far.
\<close>

fun chain_range :: "reader \<Rightarrow> bytes list \<Rightarrow> bytes list \<Rightarrow> nat \<Rightarrow> panic + reader" where
  "chain_range replacer [] inds index = Inr replacer"
| "chain_range replacer (key # keys) inds index =
     (if index = 0 then chain_range replacer keys inds (Suc index)
      else if length inds \<le> index then Inl (IndexOutOfRange index (length inds))
      else
        (case NewBytesReplacingReader replacer key (inds ! index) of
           Inl p \<Rightarrow> Inl p
         | Inr r \<Rightarrow> chain_range r keys inds (Suc index)))"

text \<open>
  The reader of \<^verbatim>\<open>DoChainReplace\<close>: \<^verbatim>\<open>Keys[0]\<close> and \<^verbatim>\<open>Indices[0]\<close> are read without a
  check of the length, then the loop runs.
\<close>

definition chain_reader :: "os_file \<Rightarrow> replacerMappings \<Rightarrow> panic + reader" where
  "chain_reader input m =
     (if length (Keys m) \<le> 0 then Inl (IndexOutOfRange 0 (length (Keys m)))
      else if length (Indices m) \<le> 0 then Inl (IndexOutOfRange 0 (length (Indices m)))
      else
        (case NewBytesReplacingReader (bufio_NewReaderSize input 8192) (Keys m ! 0)
                (Indices m ! 0) of
           Inl p \<Rightarrow> Inl p
         | Inr replacer \<Rightarrow> chain_range replacer (Keys m) (Indices m) 0))"

definition DoChainReplace :: "env \<Rightarrow> Replacer \<Rightarrow> world \<Rightarrow> replace_result" where
  "DoChainReplace E rp w =
     (case time_Now_UnixNano E w of (t, w1) \<Rightarrow>
     (let tmpfile = Sprintf_tmp_gosed t in
     (case os_OpenFile E (FilePath (Config rp)) [O_RDWR] (FilePerm (Config rp)) w1 of
        (Inl err, w2) \<Rightarrow> (Returned (0, Some err), rp, w2)
      | (Inr input, w2) \<Rightarrow>
     (case os_OpenFile E tmpfile [O_RDWR, O_CREATE] (FilePerm (Config rp)) w2 of
        (Inl err, w3) \<Rightarrow> (Returned (0, Some err), rp, w3)
      | (Inr output, w3) \<Rightarrow>
     (case chain_reader input (Mappings (Config rp)) of
        Inl p \<Rightarrow> (Panicked p, rp, deferred_Close E input output w3)
      | Inr replacer \<Rightarrow>
     (case io_CopyBuffer E output replacer w3 of
        ((wrote, Some err), w4) \<Rightarrow>
          (Returned (0, Some err), rp, deferred_Close E input output w4)
      | ((wrote, None), w4) \<Rightarrow>
     (case os_Remove E (FilePath (Config rp)) w4 of
        (Some err, w5) \<Rightarrow>
          (Returned (0, Some err), rp, deferred_Close E input output w5)
      | (None, w5) \<Rightarrow>
     (case os_Rename E tmpfile (FilePath (Config rp)) w5 of
        (Some err, w6) \<Rightarrow>
          (Returned (0, Some err), rp, deferred_Close E input output w6)
      | (None, w6) \<Rightarrow>
          (Returned (int_of_int64 wrote, None),
           set_Mappings
             \<lparr>Keys = take 0 (Keys (Mappings (Config (set_FileSize wrote rp)))),
              Indices = take 0 (Indices (Mappings (Config (set_FileSize wrote rp))))\<rparr>
             (set_FileSize wrote rp),
           deferred_Close E input output w6)))))))))"

definition ReplaceChained :: "env \<Rightarrow> Replacer \<Rightarrow> world \<Rightarrow> replace_result" where
  "ReplaceChained E rp w = DoChainReplace E rp w"

definition Replace :: "env \<Rightarrow> Replacer \<Rightarrow> world \<Rightarrow> replace_result" where
  "Replace E rp w = DoSequentialReplace E rp w"

section \<open>Reading the record of calls\<close>

text \<open>
  The calls a run has added to the world, and what can be read off them: the byte counts
  of all copies, the byte counts of the copies that succeeded and were directly followed
  by a successful rename (the passes of the sequential engine that were completed), the
  files opened with given flags, and the files closed, each in order.
\<close>

definition new_events :: "world \<Rightarrow> world \<Rightarrow> event list" where
  "new_events w w' = drop (length (trace w)) (trace w')"

fun copied_bytes :: "event list \<Rightarrow> int64 list" where
  "copied_bytes [] = []"
| "copied_bytes (EvCopy dst src n err # evs) = n # copied_bytes evs"
| "copied_bytes (e # evs) = copied_bytes evs"

fun completed_bytes :: "event list \<Rightarrow> int64 list" where
  "completed_bytes (EvCopy dst src n None # EvRename a b None # evs) = n # completed_bytes evs"
| "completed_bytes (e # evs) = completed_bytes evs"
| "completed_bytes [] = []"

fun opened_with :: "flag list \<Rightarrow> event list \<Rightarrow> os_file list" where
  "opened_with flags [] = []"
| "opened_with flags (EvOpenFile name flags' perm (Inr f) # evs) =
     (if flags' = flags then f # opened_with flags evs else opened_with flags evs)"
| "opened_with flags (e # evs) = opened_with flags evs"

fun closed :: "event list \<Rightarrow> os_file list" where
  "closed [] = []"
| "closed (EvClose f r # evs) = f # closed evs"
| "closed (e # evs) = closed evs"

text \<open>The names under which files were opened with \<^verbatim>\<open>O_CREATE\<close>, in order.\<close>

fun created_names :: "event list \<Rightarrow> string list" where
  "created_names [] = []"
| "created_names (EvOpenFile name flags perm r # evs) =
     (if O_CREATE \<in> set flags then name # created_names evs else created_names evs)"
| "created_names (e # evs) = created_names evs"

text \<open>The kind of each call, and the calls of a run other than closes by kind.\<close>

datatype step = Clock | Stat | Open | Copy | Remove | Rename | Close

fun step_of :: "event \<Rightarrow> step" where
  "step_of (EvNow t) = Clock"
| "step_of (EvStat name r) = Stat"
| "step_of (EvOpenFile name flags perm r) = Open"
| "step_of (EvClose f r) = Close"
| "step_of (EvCopy dst src n r) = Copy"
| "step_of (EvRemove name r) = Remove"
| "step_of (EvRename old new r) = Rename"

definition steps_before_cleanup :: "event list \<Rightarrow> step list" where
  "steps_before_cleanup evs = filter (\<lambda>s. s \<noteq> Close) (map step_of evs)"

text \<open>All files of a list were allocated from number \<open>lo\<close> on and before number \<open>hi\<close>.\<close>

definition allocated_in :: "nat \<Rightarrow> nat \<Rightarrow> os_file list \<Rightarrow> bool" where
  "allocated_in lo hi fs = list_all (\<lambda>f. case f of OsFile k \<Rightarrow> lo \<le> k \<and> k < hi) fs"

text \<open>
  What holds of the files opened and closed by the calls \<open>evs\<close> made between two
  worlds of a sequential run: they were allocated in between, no file opened with
  \<^verbatim>\<open>O_CREATE\<close> is closed, and every closed file was opened for reading and is closed twice.
\<close>

definition seq_handles :: "world \<Rightarrow> world \<Rightarrow> event list \<Rightarrow> bool" where
  "seq_handles w w' evs \<longleftrightarrow>
     files w \<le> files w' \<and>
     allocated_in (files w) (files w') (closed evs) \<and>
     allocated_in (files w) (files w') (opened_with [O_RDWR] evs) \<and>
     allocated_in (files w) (files w') (opened_with [O_RDWR, O_CREATE] evs) \<and>
     set (closed evs) \<inter> set (opened_with [O_RDWR, O_CREATE] evs) = {} \<and>
     (\<forall>f \<in> set (closed evs).
        f \<in> set (opened_with [O_RDWR] evs) \<and> count_list (closed evs) f = 2)"

text \<open>
  The reader chain over a list of mappings: the first mapping wraps the buffered file,
  every later mapping wraps the reader before it.
\<close>

fun wrap_reader :: "reader \<Rightarrow> bytes \<times> bytes \<Rightarrow> reader" where
  "wrap_reader r (search, replace) = BytesReplacingReader r search replace"

definition registered :: "Replacer \<Rightarrow> (bytes \<times> bytes) list" where
  "registered rp = zip (Keys (Mappings (Config rp))) (Indices (Mappings (Config rp)))"

text \<open>The three parts of what a replace operation leaves behind.\<close>

definition outcome_of :: "replace_result \<Rightarrow> (go_int \<times> error option) outcome" where
  "outcome_of r = fst r"

definition replacer_after :: "replace_result \<Rightarrow> Replacer" where
  "replacer_after r = fst (snd r)"

definition world_after :: "replace_result \<Rightarrow> world" where
  "world_after r = snd (snd r)"

definition events_of :: "world \<Rightarrow> replace_result \<Rightarrow> event list" where
  "events_of w r = new_events w (world_after r)"

text \<open>
  What holds after the loop of the sequential engine has run over \<open>keys\<close> from a count
  \<open>count\<close>, by outcome.
\<close>

definition seq_post :: "Replacer \<Rightarrow> bytes list \<Rightarrow> go_int \<Rightarrow>
    (go_int \<times> error option) outcome \<Rightarrow> Replacer \<Rightarrow> event list \<Rightarrow> bool" where
  "seq_post rp keys count res rp' evs =
     (case res of
        Returned (n, None) \<Rightarrow>
          n = count + sum_list (copied_bytes evs) \<and>
          completed_bytes evs = copied_bytes evs \<and>
          length (copied_bytes evs) = length keys \<and>
          Keys (Mappings (Config rp')) = [] \<and> Indices (Mappings (Config rp')) = [] \<and>
          FileSize (Config rp') =
            (if keys = [] then FileSize (Config rp) else last (copied_bytes evs))
      | Returned (n, Some err) \<Rightarrow>
          n = count + sum_list (completed_bytes evs) \<and>
          length (completed_bytes evs) < length keys \<and>
          Mappings (Config rp') = Mappings (Config rp)
      | Panicked p \<Rightarrow>
          Mappings (Config rp') = Mappings (Config rp) \<and>
          (\<exists>i. p = IndexOutOfRange i (length (Indices (Mappings (Config rp)))) \<and>
               length (Indices (Mappings (Config rp))) \<le> i))"

section \<open>Sample runs\<close>

text \<open>
  A Replacer on \<^verbatim>\<open>data/in.txt\<close> with two registered mappings, a world in which one
  file object exists, and these environments: one in which every call succeeds and every
  copy writes 3 bytes, one in which the copy fails with \<^verbatim>\<open>ENOSPC\<close> after 3 bytes, and
  one in which the first copy writes 7 bytes and later copies 3, one in which the
  first copy writes 7 bytes and later copies fail after 3, and one in which stat fails
  with \<^verbatim>\<open>ENOENT\<close>.
\<close>

definition sample_replacer :: Replacer where
  "sample_replacer =
     \<lparr>Config = \<lparr>File = Some (OsFile 0), FilePath = ''data/in.txt'', FileSize = 10,
                FilePerm = 420, Asynchronous = False,
                Mappings = \<lparr>Keys = [[1], [2, 3]], Indices = [[5], []]\<rparr>\<rparr>\<rparr>"

definition empty_replacer :: Replacer where
  "empty_replacer = set_Mappings \<lparr>Keys = [], Indices = []\<rparr> sample_replacer"

definition sample_world :: world where
  "sample_world = \<lparr>trace = [], files = 1\<rparr>"

definition env_ok :: env where
  "env_ok =
     \<lparr>env_now = (\<lambda>k. 42), env_stat = (\<lambda>k name. Inr (10, 420)),
      env_open = (\<lambda>k name flags perm. None), env_close = (\<lambda>k f. None),
      env_copy = (\<lambda>k dst src. (3, None)), env_remove = (\<lambda>k name. None),
      env_rename = (\<lambda>k old new. None)\<rparr>"

definition env_disk_full :: env where
  "env_disk_full = env_ok\<lparr>env_copy := (\<lambda>k dst src. (3, Some (ErrOS 28)))\<rparr>"

definition env_shrinking :: env where
  "env_shrinking = env_ok\<lparr>env_copy := (\<lambda>k dst src. (if k = 3 then 7 else 3, None))\<rparr>"

definition env_second_pass_fails :: env where
  "env_second_pass_fails =
     env_ok\<lparr>env_copy := (\<lambda>k dst src. if k = 3 then (7, None) else (3, Some (ErrOS 28)))\<rparr>"

definition env_stat_fails :: env where
  "env_stat_fails = env_ok\<lparr>env_stat := (\<lambda>k name. Inl (ErrOS 2))\<rparr>"

text \<open>The two slices of the mapping table have the same length.\<close>

definition mappings_paired :: "Replacer \<Rightarrow> bool" where
  "mappings_paired rp \<longleftrightarrow>
     length (Keys (Mappings (Config rp))) = length (Indices (Mappings (Config rp)))"

section \<open>Facts about single calls and passes\<close>

lemmas os_defs = time_Now_UnixNano_def os_OpenFile_def os_Close_def io_CopyBuffer_def
  os_Rename_def os_Remove_def os_Stat_def emit_def deferred_Close_def

lemma int_of_int64_id [simp]: "int_of_int64 n = n"
  by (simp add: int_of_int64_def)

lemma int64_of_int_id [simp]: "int64_of_int n = n"
  by (simp add: int64_of_int_def)

lemma DoSingleReplace_elim:
  assumes "DoSingleReplace E rp w old new = (res, rp', w')"
  obtains
    (fail_input) t err where
      "res = Returned (0, Some err)" "rp' = rp" "files w' = files w"
      "trace w' = trace w @
         [EvNow t, EvOpenFile (FilePath (Config rp)) [O_RDWR] (FilePerm (Config rp)) (Inl err)]"
  | (fail_output) t err where
      "res = Returned (0, Some err)" "rp' = rp" "files w' = Suc (files w)"
      "trace w' = trace w @
         [EvNow t,
          EvOpenFile (FilePath (Config rp)) [O_RDWR] (FilePerm (Config rp)) (Inr (OsFile (files w))),
          EvOpenFile (path_Join [path_Dir (FilePath (Config rp)), Sprintf_tmp_gosed t])
            [O_RDWR, O_CREATE] (FilePerm (Config rp)) (Inl err)]"
  | (fail_copy) t n err r1 r2 where
      "res = Returned (0, Some err)" "rp' = rp" "files w' = Suc (Suc (files w))"
      "trace w' = trace w @
         [EvNow t,
          EvOpenFile (FilePath (Config rp)) [O_RDWR] (FilePerm (Config rp)) (Inr (OsFile (files w))),
          EvOpenFile (path_Join [path_Dir (FilePath (Config rp)), Sprintf_tmp_gosed t])
            [O_RDWR, O_CREATE] (FilePerm (Config rp)) (Inr (OsFile (Suc (files w)))),
          EvCopy (OsFile (Suc (files w)))
            (BytesReplacingReader (BufioReader (FileReader (OsFile (files w))) 8192) old new)
            n (Some err),
          EvClose (OsFile (files w)) r1, EvClose (OsFile (files w)) r2]"
  | (fail_rename) t n err r1 r2 where
      "res = Returned (0, Some err)" "rp' = rp" "files w' = Suc (Suc (files w))"
      "trace w' = trace w @
         [EvNow t,
          EvOpenFile (FilePath (Config rp)) [O_RDWR] (FilePerm (Config rp)) (Inr (OsFile (files w))),
          EvOpenFile (path_Join [path_Dir (FilePath (Config rp)), Sprintf_tmp_gosed t])
            [O_RDWR, O_CREATE] (FilePerm (Config rp)) (Inr (OsFile (Suc (files w)))),
          EvCopy (OsFile (Suc (files w)))
            (BytesReplacingReader (BufioReader (FileReader (OsFile (files w))) 8192) old new)
            n None,
          EvRename (path_Join [path_Dir (FilePath (Config rp)), Sprintf_tmp_gosed t])
            (FilePath (Config rp)) (Some err),
          EvClose (OsFile (files w)) r1, EvClose (OsFile (files w)) r2]"
  | (success) t n r1 r2 where
      "res = Returned (n, None)" "rp' = set_FileSize n rp" "files w' = Suc (Suc (files w))"
      "trace w' = trace w @
         [EvNow t,
          EvOpenFile (FilePath (Config rp)) [O_RDWR] (FilePerm (Config rp)) (Inr (OsFile (files w))),
          EvOpenFile (path_Join [path_Dir (FilePath (Config rp)), Sprintf_tmp_gosed t])
            [O_RDWR, O_CREATE] (FilePerm (Config rp)) (Inr (OsFile (Suc (files w)))),
          EvCopy (OsFile (Suc (files w)))
            (BytesReplacingReader (BufioReader (FileReader (OsFile (files w))) 8192) old new)
            n None,
          EvRename (path_Join [path_Dir (FilePath (Config rp)), Sprintf_tmp_gosed t])
            (FilePath (Config rp)) None,
          EvClose (OsFile (files w)) r1, EvClose (OsFile (files w)) r2]"
  using assms
  unfolding DoSingleReplace_def os_defs BytesReplacingReader_Reset_def bufio_NewReaderSize_def
  by (auto simp: Let_def split: option.splits sum.splits prod.splits)


lemma DoChainReplace_elim:
  assumes "DoChainReplace E rp w = (res, rp', w')"
  obtains
    (fail_input) t err where
      "res = Returned (0, Some err)" "rp' = rp" "files w' = files w"
      "trace w' = trace w @
         [EvNow t, EvOpenFile (FilePath (Config rp)) [O_RDWR] (FilePerm (Config rp)) (Inl err)]"
  | (fail_output) t err where
      "res = Returned (0, Some err)" "rp' = rp" "files w' = Suc (files w)"
      "trace w' = trace w @
         [EvNow t,
          EvOpenFile (FilePath (Config rp)) [O_RDWR] (FilePerm (Config rp)) (Inr (OsFile (files w))),
          EvOpenFile (Sprintf_tmp_gosed t) [O_RDWR, O_CREATE] (FilePerm (Config rp)) (Inl err)]"
  | (panic) t p r1 r2 where
      "res = Panicked p" "rp' = rp" "files w' = Suc (Suc (files w))"
      "chain_reader (OsFile (files w)) (Mappings (Config rp)) = Inl p"
      "trace w' = trace w @
         [EvNow t,
          EvOpenFile (FilePath (Config rp)) [O_RDWR] (FilePerm (Config rp)) (Inr (OsFile (files w))),
          EvOpenFile (Sprintf_tmp_gosed t) [O_RDWR, O_CREATE] (FilePerm (Config rp))
            (Inr (OsFile (Suc (files w)))),
          EvClose (OsFile (files w)) r1, EvClose (OsFile (files w)) r2]"
  | (fail_copy) t replacer n err r1 r2 where
      "res = Returned (0, Some err)" "rp' = rp" "files w' = Suc (Suc (files w))"
      "chain_reader (OsFile (files w)) (Mappings (Config rp)) = Inr replacer"
      "trace w' = trace w @
         [EvNow t,
          EvOpenFile (FilePath (Config rp)) [O_RDWR] (FilePerm (Config rp)) (Inr (OsFile (files w))),
          EvOpenFile (Sprintf_tmp_gosed t) [O_RDWR, O_CREATE] (FilePerm (Config rp))
            (Inr (OsFile (Suc (files w)))),
          EvCopy (OsFile (Suc (files w))) replacer n (Some err),
          EvClose (OsFile (files w)) r1, EvClose (OsFile (files w)) r2]"
  | (fail_remove) t replacer n err r1 r2 where
      "res = Returned (0, Some err)" "rp' = rp" "files w' = Suc (Suc (files w))"
      "chain_reader (OsFile (files w)) (Mappings (Config rp)) = Inr replacer"
      "trace w' = trace w @
         [EvNow t,
          EvOpenFile (FilePath (Config rp)) [O_RDWR] (FilePerm (Config rp)) (Inr (OsFile (files w))),
          EvOpenFile (Sprintf_tmp_gosed t) [O_RDWR, O_CREATE] (FilePerm (Config rp))
            (Inr (OsFile (Suc (files w)))),
          EvCopy (OsFile (Suc (files w))) replacer n None,
          EvRemove (FilePath (Config rp)) (Some err),
          EvClose (OsFile (files w)) r1, EvClose (OsFile (files w)) r2]"
  | (fail_rename) t replacer n err r1 r2 where
      "res = Returned (0, Some err)" "rp' = rp" "files w' = Suc (Suc (files w))"
      "chain_reader (OsFile (files w)) (Mappings (Config rp)) = Inr replacer"
      "trace w' = trace w @
         [EvNow t,
          EvOpenFile (FilePath (Config rp)) [O_RDWR] (FilePerm (Config rp)) (Inr (OsFile (files w))),
          EvOpenFile (Sprintf_tmp_gosed t) [O_RDWR, O_CREATE] (FilePerm (Config rp))
            (Inr (OsFile (Suc (files w)))),
          EvCopy (OsFile (Suc (files w))) replacer n None,
          EvRemove (FilePath (Config rp)) None,
          EvRename (Sprintf_tmp_gosed t) (FilePath (Config rp)) (Some err),
          EvClose (OsFile (files w)) r1, EvClose (OsFile (files w)) r2]"
  | (success) t replacer n r1 r2 where
      "res = Returned (n, None)"
      "rp' = set_Mappings \<lparr>Keys = [], Indices = []\<rparr> (set_FileSize n rp)"
      "files w' = Suc (Suc (files w))"
      "chain_reader (OsFile (files w)) (Mappings (Config rp)) = Inr replacer"
      "trace w' = trace w @
         [EvNow t,
          EvOpenFile (FilePath (Config rp)) [O_RDWR] (FilePerm (Config rp)) (Inr (OsFile (files w))),
          EvOpenFile (Sprintf_tmp_gosed t) [O_RDWR, O_CREATE] (FilePerm (Config rp))
            (Inr (OsFile (Suc (files w)))),
          EvCopy (OsFile (Suc (files w))) replacer n None,
          EvRemove (FilePath (Config rp)) None,
          EvRename (Sprintf_tmp_gosed t) (FilePath (Config rp)) None,
          EvClose (OsFile (files w)) r1, EvClose (OsFile (files w)) r2]"
  using assms
  unfolding DoChainReplace_def os_defs
  by (auto simp: Let_def split: option.splits sum.splits prod.splits)


lemma chain_range_Inr:
  "chain_range r keys inds index = Inr r' \<Longrightarrow> 0 < index \<Longrightarrow>
   r' = foldl wrap_reader r (zip keys (drop index inds)) \<and>
   (keys \<noteq> [] \<longrightarrow> index + length keys \<le> length inds) \<and> [] \<notin> set keys"
proof (induction keys arbitrary: r index)
  case Nil
  then show ?case by simp
next
  case (Cons key keys)
  from Cons.prems have bound: "index < length inds"
    by (auto split: if_splits)
  from Cons.prems bound have key: "key \<noteq> []"
    by (auto simp: NewBytesReplacingReader_def split: if_splits)
  from Cons.prems bound key
  have rec: "chain_range (BytesReplacingReader r key (inds ! index)) keys inds (Suc index) = Inr r'"
    by (auto simp: NewBytesReplacingReader_def)
  from Cons.IH [OF rec] have
    "r' = foldl wrap_reader (BytesReplacingReader r key (inds ! index)) (zip keys (drop (Suc index) inds))"
    and "keys \<noteq> [] \<longrightarrow> Suc index + length keys \<le> length inds" and "[] \<notin> set keys"
    by simp_all
  moreover from bound have "drop index inds = inds ! index # drop (Suc index) inds"
    by (simp add: Cons_nth_drop_Suc)
  ultimately show ?case using key bound
    by (cases keys) simp_all
qed

lemma chain_range_bounds:
  "chain_range r keys inds index = Inl (IndexOutOfRange i n) \<Longrightarrow> 0 < index \<Longrightarrow>
   n = length inds \<and> length inds \<le> i \<and> i < index + length keys"
proof (induction keys arbitrary: r index)
  case Nil
  then show ?case by simp
next
  case (Cons key keys)
  show ?case
  proof (cases "length inds \<le> index")
    case True
    with Cons.prems show ?thesis by auto
  next
    case False
    with Cons.prems have "key \<noteq> []"
      by (auto simp: NewBytesReplacingReader_def split: if_splits)
    with False Cons.prems
    have "chain_range (BytesReplacingReader r key (inds ! index)) keys inds (Suc index) =
            Inl (IndexOutOfRange i n)"
      by (auto simp: NewBytesReplacingReader_def)
    from Cons.IH [OF this] show ?thesis by auto
  qed
qed

lemma chain_reader_Inr:
  assumes "chain_reader input m = Inr r"
  shows "r = foldl wrap_reader (BufioReader (FileReader input) 8192) (zip (Keys m) (Indices m))"
    and "Keys m \<noteq> []" and "length (Keys m) \<le> length (Indices m)" and "[] \<notin> set (Keys m)"
proof -
  from assms obtain k ks where keys: "Keys m = k # ks"
    by (cases "Keys m") (auto simp: chain_reader_def)
  from assms obtain v vs where inds: "Indices m = v # vs"
    by (cases "Indices m") (auto simp: chain_reader_def keys)
  from assms keys inds have k: "k \<noteq> []"
    by (auto simp: chain_reader_def NewBytesReplacingReader_def split: if_splits)
  from assms keys inds k
  have "chain_range (BytesReplacingReader (BufioReader (FileReader input) 8192) k v) ks (v # vs) (Suc 0) = Inr r"
    by (simp add: chain_reader_def NewBytesReplacingReader_def bufio_NewReaderSize_def)
  from chain_range_Inr [OF this] keys inds k
  show "r = foldl wrap_reader (BufioReader (FileReader input) 8192) (zip (Keys m) (Indices m))"
    and "Keys m \<noteq> []" and "length (Keys m) \<le> length (Indices m)" and "[] \<notin> set (Keys m)"
    by (cases ks; simp)+
qed

lemma chain_reader_empty:
  "Keys m = [] \<Longrightarrow> chain_reader input m = Inl (IndexOutOfRange 0 0)"
  by (simp add: chain_reader_def)

lemma chain_reader_bounds:
  assumes "chain_reader input m = Inl (IndexOutOfRange i n)"
  shows "Keys m = [] \<or> Indices m = [] \<or> (length (Indices m) \<le> i \<and> i < length (Keys m))"
proof (cases "Keys m = [] \<or> Indices m = []")
  case True
  then show ?thesis by blast
next
  case False
  then obtain k ks v vs where keys: "Keys m = k # ks" and inds: "Indices m = v # vs"
    by (cases "Keys m"; cases "Indices m") auto
  from assms keys inds have k: "k \<noteq> []"
    by (auto simp: chain_reader_def NewBytesReplacingReader_def split: if_splits)
  from assms keys inds k
  have "chain_range (BytesReplacingReader (BufioReader (FileReader input) 8192) k v) ks (v # vs) (Suc 0) =
          Inl (IndexOutOfRange i n)"
    by (simp add: chain_reader_def NewBytesReplacingReader_def bufio_NewReaderSize_def)
  from chain_range_bounds [OF this] keys inds show ?thesis by simp
qed

lemma sequential_range_run:
  "sequential_range E rp w keys index count = (res, rp', w') \<Longrightarrow>
   \<exists>evs. trace w' = trace w @ evs \<and> seq_post rp keys count res rp' evs"
proof (induction keys arbitrary: rp w index count)
  case Nil
  then show ?case
    by (auto simp: seq_post_def set_Mappings_def)
next
  case (Cons key keys)
  show ?case
  proof (cases "length (Indices (Mappings (Config rp))) \<le> index")
    case True
    with Cons.prems show ?thesis
      by (auto simp: seq_post_def)
  next
    case False
    obtain res1 rp1 w1 where pass:
      "DoSingleReplace E rp w key (Indices (Mappings (Config rp)) ! index) = (res1, rp1, w1)"
      by (cases "DoSingleReplace E rp w key (Indices (Mappings (Config rp)) ! index)") auto
    from pass show ?thesis
    proof (cases rule: DoSingleReplace_elim)
      case (fail_input t err)
      with Cons.prems False pass show ?thesis
        by (auto simp: seq_post_def)
    next
      case (fail_output t err)
      with Cons.prems False pass show ?thesis
        by (auto simp: seq_post_def)
    next
      case (fail_copy t n err r1 r2)
      with Cons.prems False pass show ?thesis
        by (auto simp: seq_post_def)
    next
      case (fail_rename t n err r1 r2)
      with Cons.prems False pass show ?thesis
        by (auto simp: seq_post_def)
    next
      case (success t n r1 r2)
      with Cons.prems False pass
      have rec: "sequential_range E (set_FileSize n rp1) w1 keys (Suc index) (count + n) =
                   (res, rp', w')"
        by simp
      from Cons.IH [OF rec] obtain evs where
        tr: "trace w' = trace w1 @ evs" and
        post: "seq_post (set_FileSize n rp1) keys (count + n) res rp' evs"
        by blast
      from success have maps: "Mappings (Config (set_FileSize n rp1)) = Mappings (Config rp)"
        and size: "FileSize (Config (set_FileSize n rp1)) = n"
        by (simp_all add: set_FileSize_def)
      define evs1 where "evs1 = drop (length (trace w)) (trace w1)"
      from success(4) have evs1: "evs1 =
         [EvNow t,
          EvOpenFile (FilePath (Config rp)) [O_RDWR] (FilePerm (Config rp)) (Inr (OsFile (files w))),
          EvOpenFile (path_Join [path_Dir (FilePath (Config rp)), Sprintf_tmp_gosed t])
            [O_RDWR, O_CREATE] (FilePerm (Config rp)) (Inr (OsFile (Suc (files w)))),
          EvCopy (OsFile (Suc (files w)))
            (BytesReplacingReader (BufioReader (FileReader (OsFile (files w))) 8192) key
               (Indices (Mappings (Config rp)) ! index))
            n None,
          EvRename (path_Join [path_Dir (FilePath (Config rp)), Sprintf_tmp_gosed t])
            (FilePath (Config rp)) None,
          EvClose (OsFile (files w)) r1, EvClose (OsFile (files w)) r2]"
        by (simp add: evs1_def)
      have cop: "copied_bytes (evs1 @ evs) = n # copied_bytes evs"
        and com: "completed_bytes (evs1 @ evs) = n # completed_bytes evs"
        by (simp_all add: evs1)
      have tr': "trace w' = trace w @ (evs1 @ evs)"
        using tr success(4) by (simp add: evs1_def)
      have "seq_post rp (key # keys) count res rp' (evs1 @ evs)"
      proof (cases res)
        case (Panicked p)
        with post maps show ?thesis
          by (simp add: seq_post_def)
      next
        case (Returned a)
        obtain m eo where a: "a = (m, eo)" by (cases a)
        show ?thesis
        proof (cases eo)
          case None
          with post Returned a have len: "length (copied_bytes evs) = length keys"
            by (simp add: seq_post_def)
          then have "keys = [] \<longleftrightarrow> copied_bytes evs = []"
            by (metis length_0_conv)
          with None post maps size Returned a cop com show ?thesis
            by (simp add: seq_post_def add.assoc)
        next
          case (Some err)
          with post maps size Returned a cop com show ?thesis
            by (simp add: seq_post_def add.assoc)
        qed
      qed
      with tr' show ?thesis by blast
    qed
  qed
qed


lemmas run_defs = os_defs Let_def sample_replacer_def sample_world_def env_ok_def
  env_disk_full_def env_shrinking_def env_second_pass_fails_def env_stat_fails_def empty_replacer_def set_Mappings_def set_FileSize_def
  BytesReplacingReader_Reset_def bufio_NewReaderSize_def NewBytesReplacingReader_def
  chain_reader_def

lemma run_chain_ok:
  "DoChainReplace env_ok sample_replacer sample_world =
     (Returned (3, None),
      \<lparr>Config = \<lparr>File = Some (OsFile 0), FilePath = ''data/in.txt'', FileSize = 3,
                FilePerm = 420, Asynchronous = False,
                Mappings = \<lparr>Keys = [], Indices = []\<rparr>\<rparr>\<rparr>,
      \<lparr>trace =
         [EvNow 42, EvOpenFile ''data/in.txt'' [O_RDWR] 420 (Inr (OsFile 1)),
          EvOpenFile (Sprintf_tmp_gosed 42) [O_RDWR, O_CREATE] 420 (Inr (OsFile 2)),
          EvCopy (OsFile 2)
            (BytesReplacingReader
              (BytesReplacingReader (BufioReader (FileReader (OsFile 1)) 8192) [1] [5])
              [2, 3] [])
            3 None,
          EvRemove ''data/in.txt'' None,
          EvRename (Sprintf_tmp_gosed 42) ''data/in.txt'' None,
          EvClose (OsFile 1) None, EvClose (OsFile 1) None],
       files = 3\<rparr>)"
  by (simp add: DoChainReplace_def run_defs)

lemma run_chain_disk_full:
  "DoChainReplace env_disk_full sample_replacer sample_world =
     (Returned (0, Some (ErrOS 28)), sample_replacer,
      \<lparr>trace =
         [EvNow 42, EvOpenFile ''data/in.txt'' [O_RDWR] 420 (Inr (OsFile 1)),
          EvOpenFile (Sprintf_tmp_gosed 42) [O_RDWR, O_CREATE] 420 (Inr (OsFile 2)),
          EvCopy (OsFile 2)
            (BytesReplacingReader
              (BytesReplacingReader (BufioReader (FileReader (OsFile 1)) 8192) [1] [5])
              [2, 3] [])
            3 (Some (ErrOS 28)),
          EvClose (OsFile 1) None, EvClose (OsFile 1) None],
       files = 3\<rparr>)"
  by (simp add: DoChainReplace_def run_defs)

lemma run_chain_empty:
  "DoChainReplace env_ok empty_replacer sample_world =
     (Panicked (IndexOutOfRange 0 0), empty_replacer,
      \<lparr>trace =
         [EvNow 42, EvOpenFile ''data/in.txt'' [O_RDWR] 420 (Inr (OsFile 1)),
          EvOpenFile (Sprintf_tmp_gosed 42) [O_RDWR, O_CREATE] 420 (Inr (OsFile 2)),
          EvClose (OsFile 1) None, EvClose (OsFile 1) None],
       files = 3\<rparr>)"
  by (simp add: DoChainReplace_def run_defs)

lemma tmp_42: "Sprintf_tmp_gosed 42 = ''tmp-gosed-42''"
  by (simp add: Sprintf_tmp_gosed_def dec_int_def dec_nat.simps digit_char_def)

lemma dir_sample: "path_Dir ''data/in.txt'' = ''data''"
  by (simp add: path_Dir_def path_Split_def path_Clean_def clean_step_def)

lemma join_sample: "path_Join [''data'', ''tmp-gosed-42''] = ''data/tmp-gosed-42''"
  by (simp add: path_Join_def join_step_def path_Clean_def clean_step_def)

lemma run_sequential_shrinking:
  "DoSequentialReplace env_shrinking sample_replacer sample_world =
     (Returned (10, None),
      \<lparr>Config = \<lparr>File = Some (OsFile 0), FilePath = ''data/in.txt'', FileSize = 3,
                FilePerm = 420, Asynchronous = False,
                Mappings = \<lparr>Keys = [], Indices = []\<rparr>\<rparr>\<rparr>,
      \<lparr>trace =
         [EvNow 42, EvOpenFile ''data/in.txt'' [O_RDWR] 420 (Inr (OsFile 1)),
          EvOpenFile ''data/tmp-gosed-42'' [O_RDWR, O_CREATE] 420 (Inr (OsFile 2)),
          EvCopy (OsFile 2)
            (BytesReplacingReader (BufioReader (FileReader (OsFile 1)) 8192) [1] [5]) 7 None,
          EvRename ''data/tmp-gosed-42'' ''data/in.txt'' None,
          EvClose (OsFile 1) None, EvClose (OsFile 1) None,
          EvNow 42, EvOpenFile ''data/in.txt'' [O_RDWR] 420 (Inr (OsFile 3)),
          EvOpenFile ''data/tmp-gosed-42'' [O_RDWR, O_CREATE] 420 (Inr (OsFile 4)),
          EvCopy (OsFile 4)
            (BytesReplacingReader (BufioReader (FileReader (OsFile 3)) 8192) [2, 3] []) 3 None,
          EvRename ''data/tmp-gosed-42'' ''data/in.txt'' None,
          EvClose (OsFile 3) None, EvClose (OsFile 3) None],
       files = 5\<rparr>)"
  by (simp add: DoSequentialReplace_def DoSingleReplace_def run_defs tmp_42 dir_sample join_sample)


lemmas result_defs = outcome_of_def replacer_after_def world_after_def events_of_def
  new_events_def

lemma DoSequentialReplace_run:
  "\<exists>evs. events_of w (DoSequentialReplace E rp w) = evs \<and>
     seq_post rp (Keys (Mappings (Config rp))) 0 (outcome_of (DoSequentialReplace E rp w))
       (replacer_after (DoSequentialReplace E rp w)) evs"
proof -
  obtain res rp' w' where run: "DoSequentialReplace E rp w = (res, rp', w')"
    by (cases "DoSequentialReplace E rp w") auto
  then have "sequential_range E rp w (Keys (Mappings (Config rp))) 0 0 = (res, rp', w')"
    by (simp add: DoSequentialReplace_def)
  from sequential_range_run [OF this] run show ?thesis
    by (auto simp: result_defs)
qed

lemma sample_world_trace: "trace sample_world = []"
  by (simp add: sample_world_def)

lemma run_sequential_second_fails:
  "DoSequentialReplace env_second_pass_fails sample_replacer sample_world =
     (Returned (7, Some (ErrOS 28)),
      \<lparr>Config = \<lparr>File = Some (OsFile 0), FilePath = ''data/in.txt'', FileSize = 7,
                FilePerm = 420, Asynchronous = False,
                Mappings = \<lparr>Keys = [[1], [2, 3]], Indices = [[5], []]\<rparr>\<rparr>\<rparr>,
      \<lparr>trace =
         [EvNow 42, EvOpenFile ''data/in.txt'' [O_RDWR] 420 (Inr (OsFile 1)),
          EvOpenFile ''data/tmp-gosed-42'' [O_RDWR, O_CREATE] 420 (Inr (OsFile 2)),
          EvCopy (OsFile 2)
            (BytesReplacingReader (BufioReader (FileReader (OsFile 1)) 8192) [1] [5]) 7 None,
          EvRename ''data/tmp-gosed-42'' ''data/in.txt'' None,
          EvClose (OsFile 1) None, EvClose (OsFile 1) None,
          EvNow 42, EvOpenFile ''data/in.txt'' [O_RDWR] 420 (Inr (OsFile 3)),
          EvOpenFile ''data/tmp-gosed-42'' [O_RDWR, O_CREATE] 420 (Inr (OsFile 4)),
          EvCopy (OsFile 4)
            (BytesReplacingReader (BufioReader (FileReader (OsFile 3)) 8192) [2, 3] [])
            3 (Some (ErrOS 28)),
          EvClose (OsFile 3) None, EvClose (OsFile 3) None],
       files = 5\<rparr>)"
  by (simp add: DoSequentialReplace_def DoSingleReplace_def run_defs tmp_42 dir_sample join_sample)

lemma run_reset_ok:
  "Reset env_ok sample_replacer sample_world =
     (None,
      \<lparr>Config = \<lparr>File = Some (OsFile 1), FilePath = ''data/in.txt'', FileSize = 10,
                FilePerm = Perm 420, Asynchronous = False,
                Mappings = \<lparr>Keys = [], Indices = []\<rparr>\<rparr>\<rparr>,
      \<lparr>trace = [EvClose (OsFile 0) None, EvStat ''data/in.txt'' (Inr (10, 420)),
                EvOpenFile ''data/in.txt'' [O_RDWR] (Perm 420) (Inr (OsFile 1))],
       files = 2\<rparr>)"
  by (simp add: Reset_def File_Close_def run_defs)

lemma run_reset_stat_fails:
  "Reset env_stat_fails sample_replacer sample_world =
     (Some (ErrOS 2), sample_replacer,
      \<lparr>trace = [EvClose (OsFile 0) None, EvStat ''data/in.txt'' (Inl (ErrOS 2))],
       files = 1\<rparr>)"
  by (simp add: Reset_def File_Close_def run_defs)

lemma closed_append: "closed (xs @ ys) = closed xs @ closed ys"
  by (induction xs rule: closed.induct) simp_all

lemma opened_with_append:
  "opened_with flags (xs @ ys) = opened_with flags xs @ opened_with flags ys"
  by (induction flags xs rule: opened_with.induct) simp_all

lemma allocated_in_append:
  "allocated_in lo hi (xs @ ys) \<longleftrightarrow> allocated_in lo hi xs \<and> allocated_in lo hi ys"
  by (simp add: allocated_in_def)

lemma allocated_in_mono:
  "allocated_in lo hi fs \<Longrightarrow> lo' \<le> lo \<Longrightarrow> hi \<le> hi' \<Longrightarrow> allocated_in lo' hi' fs"
  by (auto simp: allocated_in_def list_all_iff split: os_file.splits)

lemma allocated_in_notin:
  "allocated_in lo hi fs \<Longrightarrow> k < lo \<Longrightarrow> OsFile k \<notin> set fs"
  by (auto simp: allocated_in_def list_all_iff split: os_file.splits)

lemma seq_handles_pass:
  assumes evs1: "evs1 = pre @ [EvClose (OsFile (files w)) r1, EvClose (OsFile (files w)) r2]"
    and pre: "closed pre = []" "opened_with [O_RDWR] pre = [OsFile (files w)]"
      "opened_with [O_RDWR, O_CREATE] pre = [OsFile (Suc (files w))]"
    and w1: "files w1 = Suc (Suc (files w))"
    and rest: "seq_handles w1 w' evs"
  shows "seq_handles w w' (evs1 @ evs)"
proof -
  let ?i = "OsFile (files w)" and ?o = "OsFile (Suc (files w))"
  from rest w1 have le: "Suc (Suc (files w)) \<le> files w'"
    and c2: "allocated_in (Suc (Suc (files w))) (files w') (closed evs)"
    and i2: "allocated_in (Suc (Suc (files w))) (files w') (opened_with [O_RDWR] evs)"
    and o2: "allocated_in (Suc (Suc (files w))) (files w') (opened_with [O_RDWR, O_CREATE] evs)"
    and disj: "set (closed evs) \<inter> set (opened_with [O_RDWR, O_CREATE] evs) = {}"
    and twice: "\<forall>f \<in> set (closed evs).
        f \<in> set (opened_with [O_RDWR] evs) \<and> count_list (closed evs) f = 2"
    by (simp_all add: seq_handles_def)
  have cl: "closed (evs1 @ evs) = ?i # ?i # closed evs"
    and op: "opened_with [O_RDWR] (evs1 @ evs) = ?i # opened_with [O_RDWR] evs"
    and cr: "opened_with [O_RDWR, O_CREATE] (evs1 @ evs) = ?o # opened_with [O_RDWR, O_CREATE] evs"
    by (simp_all add: evs1 pre closed_append opened_with_append)
  have i_c: "?i \<notin> set (closed evs)"
    by (rule allocated_in_notin [OF c2]) simp
  have o_c: "?o \<notin> set (closed evs)"
    by (rule allocated_in_notin [OF c2]) simp
  have i_o: "?i \<notin> set (opened_with [O_RDWR, O_CREATE] evs)"
    by (rule allocated_in_notin [OF o2]) simp
  have "files w \<le> files w'" using le by simp
  moreover have "allocated_in (files w) (files w') (closed (evs1 @ evs))"
    using allocated_in_mono [OF c2, of "files w" "files w'"] le
    by (simp add: cl allocated_in_def)
  moreover have "allocated_in (files w) (files w') (opened_with [O_RDWR] (evs1 @ evs))"
    using allocated_in_mono [OF i2, of "files w" "files w'"] le
    by (simp add: op allocated_in_def)
  moreover have "allocated_in (files w) (files w') (opened_with [O_RDWR, O_CREATE] (evs1 @ evs))"
    using allocated_in_mono [OF o2, of "files w" "files w'"] le
    by (simp add: cr allocated_in_def)
  moreover have "set (closed (evs1 @ evs)) \<inter> set (opened_with [O_RDWR, O_CREATE] (evs1 @ evs)) = {}"
    using disj i_o o_c by (auto simp: cl cr)
  moreover have "\<forall>f \<in> set (closed (evs1 @ evs)).
        f \<in> set (opened_with [O_RDWR] (evs1 @ evs)) \<and> count_list (closed (evs1 @ evs)) f = 2"
    using twice i_c by (auto simp: cl op)
  ultimately show ?thesis
    by (simp add: seq_handles_def)
qed

lemma seq_handles_last:
  assumes "closed evs = [] \<or> closed evs = [OsFile (files w), OsFile (files w)]"
    and "opened_with [O_RDWR] evs = [] \<or> opened_with [O_RDWR] evs = [OsFile (files w)]"
    and "closed evs \<noteq> [] \<longrightarrow> opened_with [O_RDWR] evs \<noteq> []"
    and "opened_with [O_RDWR, O_CREATE] evs = [] \<or>
         opened_with [O_RDWR, O_CREATE] evs = [OsFile (Suc (files w))]"
    and "files w' = Suc (Suc (files w)) \<or>
         (opened_with [O_RDWR, O_CREATE] evs = [] \<and> files w' = Suc (files w)) \<or>
         (opened_with [O_RDWR, O_CREATE] evs = [] \<and> opened_with [O_RDWR] evs = [] \<and>
          files w' = files w)"
  shows "seq_handles w w' evs"
  using assms by (auto simp: seq_handles_def allocated_in_def)

lemma sequential_range_handles:
  "sequential_range E rp w keys index count = (res, rp', w') \<Longrightarrow>
   \<exists>evs. trace w' = trace w @ evs \<and> seq_handles w w' evs"
proof (induction keys arbitrary: rp w index count)
  case Nil
  then have "trace w' = trace w @ []" and "seq_handles w w' []"
    by (auto simp: seq_handles_def allocated_in_def)
  then show ?case by blast
next
  case (Cons key keys)
  show ?case
  proof (cases "length (Indices (Mappings (Config rp))) \<le> index")
    case True
    with Cons.prems have "trace w' = trace w @ []" and "seq_handles w w' []"
      by (auto simp: seq_handles_def allocated_in_def)
    then show ?thesis by blast
  next
    case False
    obtain res1 rp1 w1 where pass:
      "DoSingleReplace E rp w key (Indices (Mappings (Config rp)) ! index) = (res1, rp1, w1)"
      by (cases "DoSingleReplace E rp w key (Indices (Mappings (Config rp)) ! index)") auto
    from pass show ?thesis
    proof (cases rule: DoSingleReplace_elim)
      case (fail_input t err)
      with Cons.prems False pass have w': "w' = w1" by simp
      show ?thesis
        by (rule exI, rule conjI, rule fail_input(4) [folded w'], rule seq_handles_last)
           (simp_all add: w' fail_input(3))
    next
      case (fail_output t err)
      with Cons.prems False pass have w': "w' = w1" by simp
      show ?thesis
        by (rule exI, rule conjI, rule fail_output(4) [folded w'], rule seq_handles_last)
           (simp_all add: w' fail_output(3))
    next
      case (fail_copy t n err r1 r2)
      with Cons.prems False pass have w': "w' = w1" by simp
      show ?thesis
        by (rule exI, rule conjI, rule fail_copy(4) [folded w'], rule seq_handles_last)
           (simp_all add: w' fail_copy(3))
    next
      case (fail_rename t n err r1 r2)
      with Cons.prems False pass have w': "w' = w1" by simp
      show ?thesis
        by (rule exI, rule conjI, rule fail_rename(4) [folded w'], rule seq_handles_last)
           (simp_all add: w' fail_rename(3))
    next
      case (success t n r1 r2)
      with Cons.prems False pass
      have rec: "sequential_range E (set_FileSize n rp1) w1 keys (Suc index) (count + n) =
                   (res, rp', w')"
        by simp
      from Cons.IH [OF rec] obtain evs where
        tr: "trace w' = trace w1 @ evs" and rest: "seq_handles w1 w' evs"
        by blast
      define pre where "pre =
         [EvNow t,
          EvOpenFile (FilePath (Config rp)) [O_RDWR] (FilePerm (Config rp)) (Inr (OsFile (files w))),
          EvOpenFile (path_Join [path_Dir (FilePath (Config rp)), Sprintf_tmp_gosed t])
            [O_RDWR, O_CREATE] (FilePerm (Config rp)) (Inr (OsFile (Suc (files w)))),
          EvCopy (OsFile (Suc (files w)))
            (BytesReplacingReader (BufioReader (FileReader (OsFile (files w))) 8192) key
               (Indices (Mappings (Config rp)) ! index))
            n None,
          EvRename (path_Join [path_Dir (FilePath (Config rp)), Sprintf_tmp_gosed t])
            (FilePath (Config rp)) None]"
      define evs1 where "evs1 = pre @ [EvClose (OsFile (files w)) r1, EvClose (OsFile (files w)) r2]"
      have "seq_handles w w' (evs1 @ evs)"
        by (rule seq_handles_pass [OF evs1_def _ _ _ success(3) rest]) (simp_all add: pre_def)
      moreover have "trace w' = trace w @ (evs1 @ evs)"
        using tr success(4) by (simp add: evs1_def pre_def)
      ultimately show ?thesis by blast
    qed
  qed
qed

lemma DoSequentialReplace_handles:
  "seq_handles w (world_after (DoSequentialReplace E rp w)) (events_of w (DoSequentialReplace E rp w))"
proof -
  obtain res rp' w' where run: "DoSequentialReplace E rp w = (res, rp', w')"
    by (cases "DoSequentialReplace E rp w") auto
  then have "sequential_range E rp w (Keys (Mappings (Config rp))) 0 0 = (res, rp', w')"
    by (simp add: DoSequentialReplace_def)
  from sequential_range_handles [OF this] run show ?thesis
    by (auto simp: result_defs)
qed

lemma run_new_replacer:
  "NewReplacer env_ok ''data/in.txt'' sample_world =
     (Inr \<lparr>Config = \<lparr>File = Some (OsFile 1), FilePath = ''data/in.txt'', FileSize = 10,
                     FilePerm = Perm 420, Asynchronous = False,
                     Mappings = \<lparr>Keys = [], Indices = []\<rparr>\<rparr>\<rparr>,
      \<lparr>trace = [EvStat ''data/in.txt'' (Inr (10, 420)),
                EvOpenFile ''data/in.txt'' [O_RDWR] (Perm 420) (Inr (OsFile 1))],
       files = 2\<rparr>)"
  by (simp add: NewReplacer_def run_defs)

lemma chain_steps_prefix:
  "\<exists>k. steps_before_cleanup (events_of w (DoChainReplace E rp w)) =
     take k [Clock, Open, Open, Copy, Remove, Rename]"
proof -
  obtain res rp' w' where run: "DoChainReplace E rp w = (res, rp', w')"
    by (cases "DoChainReplace E rp w") auto
  from run have "\<exists>k. steps_before_cleanup (drop (length (trace w)) (trace w')) =
     take k [Clock, Open, Open, Copy, Remove, Rename]"
  proof (cases rule: DoChainReplace_elim)
    case (fail_input t err)
    then show ?thesis by (intro exI [of _ 2]) (simp add: steps_before_cleanup_def)
  next
    case (fail_output t err)
    then show ?thesis by (intro exI [of _ 3]) (simp add: steps_before_cleanup_def)
  next
    case (panic t p r1 r2)
    then show ?thesis by (intro exI [of _ 3]) (simp add: steps_before_cleanup_def)
  next
    case (fail_copy t replacer n err r1 r2)
    then show ?thesis by (intro exI [of _ 4]) (simp add: steps_before_cleanup_def)
  next
    case (fail_remove t replacer n err r1 r2)
    then show ?thesis by (intro exI [of _ 5]) (simp add: steps_before_cleanup_def)
  next
    case (fail_rename t replacer n err r1 r2)
    then show ?thesis by (intro exI [of _ 6]) (simp add: steps_before_cleanup_def)
  next
    case (success t replacer n r1 r2)
    then show ?thesis by (intro exI [of _ 6]) (simp add: steps_before_cleanup_def)
  qed
  with run show ?thesis
    by (simp add: result_defs)
qed

lemma run_sequential_ok:
  "DoSequentialReplace env_ok sample_replacer sample_world =
     (Returned (6, None),
      \<lparr>Config = \<lparr>File = Some (OsFile 0), FilePath = ''data/in.txt'', FileSize = 3,
                FilePerm = 420, Asynchronous = False,
                Mappings = \<lparr>Keys = [], Indices = []\<rparr>\<rparr>\<rparr>,
      \<lparr>trace =
         [EvNow 42, EvOpenFile ''data/in.txt'' [O_RDWR] 420 (Inr (OsFile 1)),
          EvOpenFile ''data/tmp-gosed-42'' [O_RDWR, O_CREATE] 420 (Inr (OsFile 2)),
          EvCopy (OsFile 2)
            (BytesReplacingReader (BufioReader (FileReader (OsFile 1)) 8192) [1] [5]) 3 None,
          EvRename ''data/tmp-gosed-42'' ''data/in.txt'' None,
          EvClose (OsFile 1) None, EvClose (OsFile 1) None,
          EvNow 42, EvOpenFile ''data/in.txt'' [O_RDWR] 420 (Inr (OsFile 3)),
          EvOpenFile ''data/tmp-gosed-42'' [O_RDWR, O_CREATE] 420 (Inr (OsFile 4)),
          EvCopy (OsFile 4)
            (BytesReplacingReader (BufioReader (FileReader (OsFile 3)) 8192) [2, 3] []) 3 None,
          EvRename ''data/tmp-gosed-42'' ''data/in.txt'' None,
          EvClose (OsFile 3) None, EvClose (OsFile 3) None],
       files = 5\<rparr>)"
  by (simp add: DoSequentialReplace_def DoSingleReplace_def run_defs tmp_42 dir_sample join_sample)

lemma dir_tmp_42: "path_Dir ''tmp-gosed-42'' = ''.''"
  by (simp add: path_Dir_def path_Split_def path_Clean_def)

lemma dir_data_tmp_42: "path_Dir ''data/tmp-gosed-42'' = ''data''"
  by (simp add: path_Dir_def path_Split_def path_Clean_def clean_step_def)

lemma chain_success_trace:
  "outcome_of (DoChainReplace E rp w) = Returned (n, None) \<longrightarrow>
     (\<exists>t r1 r2.
        events_of w (DoChainReplace E rp w) =
          [EvNow t,
           EvOpenFile (FilePath (Config rp)) [O_RDWR] (FilePerm (Config rp))
             (Inr (OsFile (files w))),
           EvOpenFile (Sprintf_tmp_gosed t) [O_RDWR, O_CREATE] (FilePerm (Config rp))
             (Inr (OsFile (Suc (files w)))),
           EvCopy (OsFile (Suc (files w)))
             (foldl wrap_reader (BufioReader (FileReader (OsFile (files w))) 8192)
                (registered rp))
             n None,
           EvRemove (FilePath (Config rp)) None,
           EvRename (Sprintf_tmp_gosed t) (FilePath (Config rp)) None,
           EvClose (OsFile (files w)) r1, EvClose (OsFile (files w)) r2]) \<and>
     map fst (registered rp) = Keys (Mappings (Config rp)) \<and>
     Keys (Mappings (Config rp)) \<noteq> []"
proof
  assume ok: "outcome_of (DoChainReplace E rp w) = Returned (n, None)"
  obtain res rp' w' where run: "DoChainReplace E rp w = (res, rp', w')"
    by (cases "DoChainReplace E rp w") auto
  with ok have res: "res = Returned (n, None)"
    by (simp add: outcome_of_def)
  from run show "(\<exists>t r1 r2.
        events_of w (DoChainReplace E rp w) =
          [EvNow t,
           EvOpenFile (FilePath (Config rp)) [O_RDWR] (FilePerm (Config rp))
             (Inr (OsFile (files w))),
           EvOpenFile (Sprintf_tmp_gosed t) [O_RDWR, O_CREATE] (FilePerm (Config rp))
             (Inr (OsFile (Suc (files w)))),
           EvCopy (OsFile (Suc (files w)))
             (foldl wrap_reader (BufioReader (FileReader (OsFile (files w))) 8192)
                (registered rp))
             n None,
           EvRemove (FilePath (Config rp)) None,
           EvRename (Sprintf_tmp_gosed t) (FilePath (Config rp)) None,
           EvClose (OsFile (files w)) r1, EvClose (OsFile (files w)) r2]) \<and>
     map fst (registered rp) = Keys (Mappings (Config rp)) \<and>
     Keys (Mappings (Config rp)) \<noteq> []"
  proof (cases rule: DoChainReplace_elim)
    case (success t replacer m r1 r2)
    from chain_reader_Inr [OF success(4)] have
      rd: "replacer = foldl wrap_reader (BufioReader (FileReader (OsFile (files w))) 8192)
             (registered rp)"
      and ne: "Keys (Mappings (Config rp)) \<noteq> []"
      and len: "length (Keys (Mappings (Config rp))) \<le> length (Indices (Mappings (Config rp)))"
      by (simp_all add: registered_def)
    from len have "map fst (registered rp) = Keys (Mappings (Config rp))"
      by (simp add: registered_def map_fst_zip_take)
    with success res rd ne run show ?thesis
      by (simp add: result_defs)
  qed (use res in simp_all)
qed

section \<open>Registration rejects the empty pattern\<close>

text \<open>
  C6. For every pair of byte sequences (old, new): registering a mapping whose old
  sequence is empty fails with the invalid-mapping error and leaves the Replacer, hence
  its mapping table, unchanged; registering one whose old sequence is not empty succeeds
  and appends old to the list of patterns and new to the list of replacements. The same
  holds for the string operation, whose strings are stored as their bytes.
\<close>

theorem C6_registration:
  "(old = [] \<longrightarrow> NewMapping rp old new = (Some ErrEmptyOld, rp)) \<and>
   (old \<noteq> [] \<longrightarrow>
      fst (NewMapping rp old new) = None \<and>
      Keys (Mappings (Config (snd (NewMapping rp old new)))) =
        Keys (Mappings (Config rp)) @ [old] \<and>
      Indices (Mappings (Config (snd (NewMapping rp old new)))) =
        Indices (Mappings (Config rp)) @ [new]) \<and>
   (olds = [] \<longrightarrow> NewStringMapping rp olds news = (Some ErrEmptyOld, rp)) \<and>
   (olds \<noteq> [] \<longrightarrow>
      fst (NewStringMapping rp olds news) = None \<and>
      Keys (Mappings (Config (snd (NewStringMapping rp olds news)))) =
        Keys (Mappings (Config rp)) @ [bytes_of_string olds] \<and>
      Indices (Mappings (Config (snd (NewStringMapping rp olds news)))) =
        Indices (Mappings (Config rp)) @ [bytes_of_string news] \<and>
      bytes_of_string olds \<noteq> [])"
  by (simp add: NewMapping_def NewStringMapping_def set_Mappings_def bytes_of_string_def)

theorem C6_registration_witness:
  "NewMapping sample_replacer [] [5] = (Some ErrEmptyOld, sample_replacer) \<and>
   fst (NewMapping sample_replacer [7] [5]) = None \<and>
   Keys (Mappings (Config (snd (NewMapping sample_replacer [7] [5])))) = [[1], [2, 3], [7]] \<and>
   Indices (Mappings (Config (snd (NewMapping sample_replacer [7] [5])))) = [[5], [], [5]] \<and>
   NewStringMapping sample_replacer [] ''x'' = (Some ErrEmptyOld, sample_replacer) \<and>
   fst (NewStringMapping sample_replacer ''a'' ''b'') = None \<and>
   Keys (Mappings (Config (snd (NewStringMapping sample_replacer ''a'' ''b'')))) =
     [[1], [2, 3], bytes_of_string ''a'']"
  using C6_registration [where old = "[]" and rp = sample_replacer and new = "[5]"
          and olds = "[]" and news = "''x''"]
        C6_registration [where old = "[7]" and rp = sample_replacer and new = "[5]"
          and olds = "''a''" and news = "''b''"]
  by (simp add: sample_replacer_def)

section \<open>The chained engine indexes the mapping list without a guard\<close>

text \<open>
  C1. Calling the chained replace with no mapping registered is an error. With an empty
  list of keys the call returns the error of the first open that fails, and when both
  files open it ends in the panic "index out of range [0] with length 0" of
  \<^verbatim>\<open>Keys[0]\<close>: nothing checks the length before, and no error value is returned for
  it. With at least one mapping registered (both lists of the same, non-zero length) no
  index of the call is out of range.
\<close>

theorem C1_chain_zero_mappings:
  "(Keys (Mappings (Config rp)) = [] \<longrightarrow>
      outcome_of (DoChainReplace E rp w) =
        (case env_open E (Suc (length (trace w))) (FilePath (Config rp)) [O_RDWR]
                (FilePerm (Config rp)) of
           Some err \<Rightarrow> Returned (0, Some err)
         | None \<Rightarrow>
             (case env_open E (Suc (Suc (length (trace w))))
                     (Sprintf_tmp_gosed (env_now E (length (trace w)))) [O_RDWR, O_CREATE]
                     (FilePerm (Config rp)) of
                Some err \<Rightarrow> Returned (0, Some err)
              | None \<Rightarrow> Panicked (IndexOutOfRange 0 0)))) \<and>
   (Keys (Mappings (Config rp)) \<noteq> [] \<and>
    length (Indices (Mappings (Config rp))) = length (Keys (Mappings (Config rp))) \<longrightarrow>
      outcome_of (DoChainReplace E rp w) \<noteq> Panicked (IndexOutOfRange i n))"
proof (intro conjI impI)
  assume "Keys (Mappings (Config rp)) = []"
  then have "chain_reader f (Mappings (Config rp)) = Inl (IndexOutOfRange 0 0)" for f
    by (rule chain_reader_empty)
  then show "outcome_of (DoChainReplace E rp w) =
        (case env_open E (Suc (length (trace w))) (FilePath (Config rp)) [O_RDWR]
                (FilePerm (Config rp)) of
           Some err \<Rightarrow> Returned (0, Some err)
         | None \<Rightarrow>
             (case env_open E (Suc (Suc (length (trace w))))
                     (Sprintf_tmp_gosed (env_now E (length (trace w)))) [O_RDWR, O_CREATE]
                     (FilePerm (Config rp)) of
                Some err \<Rightarrow> Returned (0, Some err)
              | None \<Rightarrow> Panicked (IndexOutOfRange 0 0)))"
    by (simp add: DoChainReplace_def os_defs Let_def outcome_of_def split: option.splits)
next
  assume reg: "Keys (Mappings (Config rp)) \<noteq> [] \<and>
    length (Indices (Mappings (Config rp))) = length (Keys (Mappings (Config rp)))"
  obtain res rp' w' where run: "DoChainReplace E rp w = (res, rp', w')"
    by (cases "DoChainReplace E rp w") auto
  have "res \<noteq> Panicked (IndexOutOfRange i n)"
  proof
    assume p: "res = Panicked (IndexOutOfRange i n)"
    from run have "\<exists>f. chain_reader f (Mappings (Config rp)) = Inl (IndexOutOfRange i n)"
      by (cases rule: DoChainReplace_elim) (use p in auto)
    then obtain f where "chain_reader f (Mappings (Config rp)) = Inl (IndexOutOfRange i n)" ..
    from chain_reader_bounds [OF this] reg show False
      by auto
  qed
  with run show "outcome_of (DoChainReplace E rp w) \<noteq> Panicked (IndexOutOfRange i n)"
    by (simp add: outcome_of_def)
qed

theorem C1_chain_zero_mappings_witness:
  "outcome_of (DoChainReplace env_ok empty_replacer sample_world) = Panicked (IndexOutOfRange 0 0) \<and>
   outcome_of (DoChainReplace env_ok sample_replacer sample_world) \<noteq> Panicked (IndexOutOfRange 0 0)"
  using C1_chain_zero_mappings [where rp = empty_replacer and E = env_ok and w = sample_world]
    C1_chain_zero_mappings [where rp = sample_replacer and E = env_ok and w = sample_world
      and i = 0 and n = 0]
  by (simp add: empty_replacer_def sample_replacer_def set_Mappings_def env_ok_def)


section \<open>The steps of the chained engine\<close>

text \<open>
  C5. A chained replace that succeeds has made exactly these calls, in this order: it
  reads the clock, opens the working file, creates the scratch file, copies once into
  the scratch file from one reader chain in which the first registered mapping wraps
  the buffered working file and every later mapping wraps the reader before it, in
  registration order and over all registered keys, then removes the working file, then
  renames the scratch file to the working file's path, then runs the deferred closes.
  Whatever the outcome of a chained replace, its calls other than the closes are a
  beginning of clock, open, open, copy, remove, rename: the rename is never tried
  before the remove, nor the remove before the copy.
\<close>

theorem C5_chain_order:
  "(outcome_of (DoChainReplace E rp w) = Returned (n, None) \<longrightarrow>
     (\<exists>t r1 r2.
        events_of w (DoChainReplace E rp w) =
          [EvNow t,
           EvOpenFile (FilePath (Config rp)) [O_RDWR] (FilePerm (Config rp))
             (Inr (OsFile (files w))),
           EvOpenFile (Sprintf_tmp_gosed t) [O_RDWR, O_CREATE] (FilePerm (Config rp))
             (Inr (OsFile (Suc (files w)))),
           EvCopy (OsFile (Suc (files w)))
             (foldl wrap_reader (BufioReader (FileReader (OsFile (files w))) 8192)
                (registered rp))
             n None,
           EvRemove (FilePath (Config rp)) None,
           EvRename (Sprintf_tmp_gosed t) (FilePath (Config rp)) None,
           EvClose (OsFile (files w)) r1, EvClose (OsFile (files w)) r2]) \<and>
     map fst (registered rp) = Keys (Mappings (Config rp)) \<and>
     Keys (Mappings (Config rp)) \<noteq> []) \<and>
   (\<exists>k. steps_before_cleanup (events_of w (DoChainReplace E rp w)) =
      take k [Clock, Open, Open, Copy, Remove, Rename])"
  using chain_success_trace [of E rp w n] chain_steps_prefix [of w E rp]
  by blast

theorem C5_chain_order_witness:
  "outcome_of (DoChainReplace env_ok sample_replacer sample_world) = Returned (3, None) \<and>
   (\<exists>t r1 r2.
      events_of sample_world (DoChainReplace env_ok sample_replacer sample_world) =
        [EvNow t,
         EvOpenFile ''data/in.txt'' [O_RDWR] 420 (Inr (OsFile 1)),
         EvOpenFile (Sprintf_tmp_gosed t) [O_RDWR, O_CREATE] 420 (Inr (OsFile 2)),
         EvCopy (OsFile 2)
           (BytesReplacingReader
              (BytesReplacingReader (BufioReader (FileReader (OsFile 1)) 8192) [1] [5])
              [2, 3] [])
           3 None,
         EvRemove ''data/in.txt'' None,
         EvRename (Sprintf_tmp_gosed t) ''data/in.txt'' None,
         EvClose (OsFile 1) r1, EvClose (OsFile 1) r2])"
proof -
  have ok: "outcome_of (DoChainReplace env_ok sample_replacer sample_world) = Returned (3, None)"
    by (simp add: run_chain_ok outcome_of_def)
  with C5_chain_order [where E = env_ok and rp = sample_replacer and w = sample_world and n = 3]
  show ?thesis
    by (simp add: registered_def sample_replacer_def sample_world_def numeral_2_eq_2)
qed

section \<open>A successful replace consumes the mappings\<close>

text \<open>
  C7. After a replace operation that succeeds, sequential or chained, both lists of the
  mapping table are empty; after a sequential one that had at least one mapping, the
  recorded size of the working file is the byte count of the last copy, that of the
  last pass.
\<close>

theorem C7_tables_cleared:
  "(outcome_of (DoSequentialReplace E rp w) = Returned (n, None) \<longrightarrow>
      Keys (Mappings (Config (replacer_after (DoSequentialReplace E rp w)))) = [] \<and>
      Indices (Mappings (Config (replacer_after (DoSequentialReplace E rp w)))) = [] \<and>
      (Keys (Mappings (Config rp)) \<noteq> [] \<longrightarrow>
         FileSize (Config (replacer_after (DoSequentialReplace E rp w))) =
           last (copied_bytes (events_of w (DoSequentialReplace E rp w))))) \<and>
   (outcome_of (DoChainReplace E rp w) = Returned (m, None) \<longrightarrow>
      Keys (Mappings (Config (replacer_after (DoChainReplace E rp w)))) = [] \<and>
      Indices (Mappings (Config (replacer_after (DoChainReplace E rp w)))) = [])"
proof (intro conjI impI)
  assume ok: "outcome_of (DoSequentialReplace E rp w) = Returned (n, None)"
  from DoSequentialReplace_run [of w E rp] ok
  have post: "seq_post rp (Keys (Mappings (Config rp))) 0 (Returned (n, None))
       (replacer_after (DoSequentialReplace E rp w)) (events_of w (DoSequentialReplace E rp w))"
    by simp
  from post show "Keys (Mappings (Config (replacer_after (DoSequentialReplace E rp w)))) = []"
    by (simp add: seq_post_def)
  from post show "Indices (Mappings (Config (replacer_after (DoSequentialReplace E rp w)))) = []"
    by (simp add: seq_post_def)
  assume "Keys (Mappings (Config rp)) \<noteq> []"
  with post show "FileSize (Config (replacer_after (DoSequentialReplace E rp w))) =
           last (copied_bytes (events_of w (DoSequentialReplace E rp w)))"
    by (simp add: seq_post_def)
next
  assume ok: "outcome_of (DoChainReplace E rp w) = Returned (m, None)"
  obtain res rp' w' where run: "DoChainReplace E rp w = (res, rp', w')"
    by (cases "DoChainReplace E rp w") auto
  with ok have res: "res = Returned (m, None)"
    by (simp add: outcome_of_def)
  from run have "Keys (Mappings (Config rp')) = [] \<and> Indices (Mappings (Config rp')) = []"
    by (cases rule: DoChainReplace_elim)
       (use res in \<open>simp_all add: set_Mappings_def set_FileSize_def\<close>)
  with run show "Keys (Mappings (Config (replacer_after (DoChainReplace E rp w)))) = []"
    and "Indices (Mappings (Config (replacer_after (DoChainReplace E rp w)))) = []"
    by (simp_all add: replacer_after_def)
qed


theorem C7_tables_cleared_witness:
  "outcome_of (DoSequentialReplace env_shrinking sample_replacer sample_world) = Returned (10, None) \<and>
   Keys (Mappings (Config (replacer_after
     (DoSequentialReplace env_shrinking sample_replacer sample_world)))) = [] \<and>
   Indices (Mappings (Config (replacer_after
     (DoSequentialReplace env_shrinking sample_replacer sample_world)))) = [] \<and>
   Keys (Mappings (Config sample_replacer)) \<noteq> [] \<and>
   FileSize (Config (replacer_after
     (DoSequentialReplace env_shrinking sample_replacer sample_world))) = 3 \<and>
   outcome_of (DoChainReplace env_ok sample_replacer sample_world) = Returned (3, None) \<and>
   Keys (Mappings (Config (replacer_after
     (DoChainReplace env_ok sample_replacer sample_world)))) = [] \<and>
   Indices (Mappings (Config (replacer_after
     (DoChainReplace env_ok sample_replacer sample_world)))) = []"
proof -
  have seq: "outcome_of (DoSequentialReplace env_shrinking sample_replacer sample_world) =
      Returned (10, None)"
    by (simp add: run_sequential_shrinking outcome_of_def)
  have chain: "outcome_of (DoChainReplace env_ok sample_replacer sample_world) = Returned (3, None)"
    by (simp add: run_chain_ok outcome_of_def)
  have keys: "Keys (Mappings (Config sample_replacer)) \<noteq> []"
    by (simp add: sample_replacer_def)
  have last: "last (copied_bytes (events_of sample_world
      (DoSequentialReplace env_shrinking sample_replacer sample_world))) = 3"
    by (simp add: run_sequential_shrinking result_defs sample_world_trace)
  from C7_tables_cleared [where E = env_shrinking and rp = sample_replacer and w = sample_world
      and n = 10 and m = 0] seq keys last
  have "Keys (Mappings (Config (replacer_after
     (DoSequentialReplace env_shrinking sample_replacer sample_world)))) = [] \<and>
   Indices (Mappings (Config (replacer_after
     (DoSequentialReplace env_shrinking sample_replacer sample_world)))) = [] \<and>
   FileSize (Config (replacer_after
     (DoSequentialReplace env_shrinking sample_replacer sample_world))) = 3"
    by simp
  moreover
  from C7_tables_cleared [where E = env_ok and rp = sample_replacer and w = sample_world
      and n = 0 and m = 3] chain
  have "Keys (Mappings (Config (replacer_after
     (DoChainReplace env_ok sample_replacer sample_world)))) = [] \<and>
   Indices (Mappings (Config (replacer_after
     (DoChainReplace env_ok sample_replacer sample_world)))) = []"
    by simp
  ultimately show ?thesis using seq chain keys by simp
qed

section \<open>The byte count of a successful replace\<close>

text \<open>
  C9. The count returned by a successful sequential replace is the sum, in Go's wrapping
  addition, of the byte counts of all its copies, one per registered key, while the size
  it records for the working file is the count of the last copy only; so the two differ
  as soon as an earlier pass wrote anything. The count returned by a successful chained
  replace is the byte count of its single copy.
\<close>

theorem C9_returned_count:
  "(outcome_of (DoSequentialReplace E rp w) = Returned (n, None) \<longrightarrow>
      n = sum_list (copied_bytes (events_of w (DoSequentialReplace E rp w))) \<and>
      length (copied_bytes (events_of w (DoSequentialReplace E rp w))) =
        length (Keys (Mappings (Config rp))) \<and>
      FileSize (Config (replacer_after (DoSequentialReplace E rp w))) =
        (if Keys (Mappings (Config rp)) = [] then FileSize (Config rp)
         else last (copied_bytes (events_of w (DoSequentialReplace E rp w))))) \<and>
   (outcome_of (DoChainReplace E rp w) = Returned (m, None) \<longrightarrow>
      copied_bytes (events_of w (DoChainReplace E rp w)) = [m] \<and>
      FileSize (Config (replacer_after (DoChainReplace E rp w))) = m)"
proof (intro conjI impI)
  assume ok: "outcome_of (DoSequentialReplace E rp w) = Returned (n, None)"
  from DoSequentialReplace_run [of w E rp] ok
  have post: "seq_post rp (Keys (Mappings (Config rp))) 0 (Returned (n, None))
       (replacer_after (DoSequentialReplace E rp w)) (events_of w (DoSequentialReplace E rp w))"
    by simp
  from post show "n = sum_list (copied_bytes (events_of w (DoSequentialReplace E rp w)))"
    by (simp add: seq_post_def)
  from post show "length (copied_bytes (events_of w (DoSequentialReplace E rp w))) =
        length (Keys (Mappings (Config rp)))"
    by (simp add: seq_post_def)
  from post show "FileSize (Config (replacer_after (DoSequentialReplace E rp w))) =
        (if Keys (Mappings (Config rp)) = [] then FileSize (Config rp)
         else last (copied_bytes (events_of w (DoSequentialReplace E rp w))))"
    by (simp add: seq_post_def)
next
  assume ok: "outcome_of (DoChainReplace E rp w) = Returned (m, None)"
  obtain res rp' w' where run: "DoChainReplace E rp w = (res, rp', w')"
    by (cases "DoChainReplace E rp w") auto
  with ok have res: "res = Returned (m, None)"
    by (simp add: outcome_of_def)
  from run have "copied_bytes (drop (length (trace w)) (trace w')) = [m] \<and>
      FileSize (Config rp') = m"
    by (cases rule: DoChainReplace_elim)
       (use res in \<open>simp_all add: set_Mappings_def set_FileSize_def\<close>)
  with run show "copied_bytes (events_of w (DoChainReplace E rp w)) = [m]"
    and "FileSize (Config (replacer_after (DoChainReplace E rp w))) = m"
    by (simp_all add: result_defs)
qed

theorem C9_returned_count_witness:
  "outcome_of (DoSequentialReplace env_shrinking sample_replacer sample_world) = Returned (10, None) \<and>
   copied_bytes (events_of sample_world
     (DoSequentialReplace env_shrinking sample_replacer sample_world)) = [7, 3] \<and>
   FileSize (Config (replacer_after
     (DoSequentialReplace env_shrinking sample_replacer sample_world))) = 3 \<and>
   outcome_of (DoChainReplace env_ok sample_replacer sample_world) = Returned (3, None) \<and>
   copied_bytes (events_of sample_world (DoChainReplace env_ok sample_replacer sample_world)) = [3]"
proof -
  have seq: "outcome_of (DoSequentialReplace env_shrinking sample_replacer sample_world) =
      Returned (10, None)"
    by (simp add: run_sequential_shrinking outcome_of_def)
  have chain: "outcome_of (DoChainReplace env_ok sample_replacer sample_world) = Returned (3, None)"
    by (simp add: run_chain_ok outcome_of_def)
  have copies: "copied_bytes (events_of sample_world
      (DoSequentialReplace env_shrinking sample_replacer sample_world)) = [7, 3]"
    by (simp add: run_sequential_shrinking result_defs sample_world_trace)
  have keys: "Keys (Mappings (Config sample_replacer)) \<noteq> []"
    by (simp add: sample_replacer_def)
  from C9_returned_count [where E = env_shrinking and rp = sample_replacer and w = sample_world
      and n = 10 and m = 0] seq copies keys
  have "FileSize (Config (replacer_after
     (DoSequentialReplace env_shrinking sample_replacer sample_world))) = 3"
    by simp
  moreover
  from C9_returned_count [where E = env_ok and rp = sample_replacer and w = sample_world
      and n = 0 and m = 3] chain
  have "copied_bytes (events_of sample_world
      (DoChainReplace env_ok sample_replacer sample_world)) = [3]"
    by simp
  ultimately show ?thesis using seq chain copies by simp
qed


section \<open>The byte count returned with an error\<close>

text \<open>
  C2, as stated: a replace operation that fails in the middle of a pass returns, with
  the error, the number of bytes written before the failure, the bytes already written
  to the scratch file in the failing pass included. This fails: when the copy of the
  chained engine stops with an error after 3 bytes, the call returns 0 with the error,
  and when the second pass of the sequential engine stops after 3 bytes, 7 bytes having
  been written by the first, the call returns 7.
\<close>

theorem C2_counterexample:
  "copied_bytes (events_of sample_world
     (DoChainReplace env_disk_full sample_replacer sample_world)) = [3] \<and>
   outcome_of (DoChainReplace env_disk_full sample_replacer sample_world) =
     Returned (0, Some (ErrOS 28)) \<and>
   outcome_of (DoChainReplace env_disk_full sample_replacer sample_world) \<noteq>
     Returned (sum_list (copied_bytes (events_of sample_world
       (DoChainReplace env_disk_full sample_replacer sample_world))), Some (ErrOS 28)) \<and>
   copied_bytes (events_of sample_world
     (DoSequentialReplace env_second_pass_fails sample_replacer sample_world)) = [7, 3] \<and>
   outcome_of (DoSequentialReplace env_second_pass_fails sample_replacer sample_world) =
     Returned (7, Some (ErrOS 28))"
  by (simp add: run_chain_disk_full run_sequential_second_fails result_defs sample_world_trace)

text \<open>
  C2, amended. A replace operation that fails returns the error with the bytes of the
  passes completed before the failing pass only: the chained engine, whose single pass
  is the failing one, returns 0, and the sequential engine returns the sum of the byte
  counts of the copies that succeeded and were followed by a successful rename, which
  are fewer than the registered keys. Bytes written to the scratch file in the failing
  pass are not counted.
\<close>

theorem C2_error_count:
  "(outcome_of (DoChainReplace E rp w) = Returned (n, Some err) \<longrightarrow> n = 0) \<and>
   (outcome_of (DoSequentialReplace E rp w) = Returned (m, Some err') \<longrightarrow>
      m = sum_list (completed_bytes (events_of w (DoSequentialReplace E rp w))) \<and>
      length (completed_bytes (events_of w (DoSequentialReplace E rp w))) <
        length (Keys (Mappings (Config rp))))"
proof (intro conjI impI)
  assume fail: "outcome_of (DoChainReplace E rp w) = Returned (n, Some err)"
  obtain res rp' w' where run: "DoChainReplace E rp w = (res, rp', w')"
    by (cases "DoChainReplace E rp w") auto
  with fail have res: "res = Returned (n, Some err)"
    by (simp add: outcome_of_def)
  from run show "n = 0"
    by (cases rule: DoChainReplace_elim) (use res in simp_all)
next
  assume fail: "outcome_of (DoSequentialReplace E rp w) = Returned (m, Some err')"
  from DoSequentialReplace_run [of w E rp] fail
  have post: "seq_post rp (Keys (Mappings (Config rp))) 0 (Returned (m, Some err'))
       (replacer_after (DoSequentialReplace E rp w)) (events_of w (DoSequentialReplace E rp w))"
    by simp
  from post show "m = sum_list (completed_bytes (events_of w (DoSequentialReplace E rp w)))"
    by (simp add: seq_post_def)
  from post show "length (completed_bytes (events_of w (DoSequentialReplace E rp w))) <
        length (Keys (Mappings (Config rp)))"
    by (simp add: seq_post_def)
qed

theorem C2_error_count_witness:
  "outcome_of (DoChainReplace env_disk_full sample_replacer sample_world) =
     Returned (0, Some (ErrOS 28)) \<and>
   outcome_of (DoSequentialReplace env_second_pass_fails sample_replacer sample_world) =
     Returned (7, Some (ErrOS 28)) \<and>
   completed_bytes (events_of sample_world
     (DoSequentialReplace env_second_pass_fails sample_replacer sample_world)) = [7]"
  using C2_error_count [where E = env_disk_full and rp = sample_replacer and w = sample_world
      and n = 0 and err = "ErrOS 28" and m = 0 and err' = ErrEmptyOld]
    C2_error_count [where E = env_second_pass_fails and rp = sample_replacer and w = sample_world
      and n = 1 and err = "ErrOS 28" and m = 7 and err' = "ErrOS 28"]
  by (simp add: run_chain_disk_full run_sequential_second_fails result_defs sample_world_trace)

section \<open>Reset changes the mapping table only when it succeeds\<close>

text \<open>
  C10. If \<^verbatim>\<open>Reset\<close> returns an error, whether from closing, from stat or from
  reopening the working file, the mapping table is what it was. If it returns no error,
  both lists are empty, and the calls made were a successful close of the old file, a
  successful stat and a successful open, in this order, the new file being stored.
\<close>

theorem C10_reset_atomic:
  "(fst (Reset E rp w) \<noteq> None \<longrightarrow>
      Mappings (Config (fst (snd (Reset E rp w)))) = Mappings (Config rp)) \<and>
   (fst (Reset E rp w) = None \<longrightarrow>
      Keys (Mappings (Config (fst (snd (Reset E rp w))))) = [] \<and>
      Indices (Mappings (Config (fst (snd (Reset E rp w))))) = [] \<and>
      (\<exists>f sz mode.
         File (Config rp) = Some f \<and>
         File (Config (fst (snd (Reset E rp w)))) = Some (OsFile (files w)) \<and>
         new_events w (snd (snd (Reset E rp w))) =
           [EvClose f None, EvStat (FilePath (Config rp)) (Inr (sz, mode)),
            EvOpenFile (FilePath (Config rp)) [O_RDWR] (Perm mode) (Inr (OsFile (files w)))]))"
  unfolding Reset_def File_Close_def os_defs new_events_def
  by (simp add: Let_def split: option.split sum.split prod.split)

theorem C10_reset_atomic_witness:
  "fst (Reset env_stat_fails sample_replacer sample_world) = Some (ErrOS 2) \<and>
   Mappings (Config (fst (snd (Reset env_stat_fails sample_replacer sample_world)))) =
     \<lparr>Keys = [[1], [2, 3]], Indices = [[5], []]\<rparr> \<and>
   fst (Reset env_ok sample_replacer sample_world) = None \<and>
   Keys (Mappings (Config (fst (snd (Reset env_ok sample_replacer sample_world))))) = []"
  using C10_reset_atomic [where E = env_stat_fails and rp = sample_replacer and w = sample_world]
    C10_reset_atomic [where E = env_ok and rp = sample_replacer and w = sample_world]
  by (simp add: run_reset_ok run_reset_stat_fails) (simp add: sample_replacer_def)


section \<open>The deferred cleanup\<close>

text \<open>
  C4. In one pass of the sequential engine and in the chained engine alike, when the
  input file and the scratch file have both been opened, the files closed by the call
  are the input file and the input file again, and the scratch file, which is another
  file, is not closed; when no scratch file was opened nothing is closed. Over a whole
  sequential replace no file opened with \<^verbatim>\<open>O_CREATE\<close> is ever closed, and every
  file that is closed was opened for reading and is closed exactly twice.
\<close>

theorem C4_deferred_close:
  "(opened_with [O_RDWR] (events_of w (DoSingleReplace E rp w old new)) = [input] \<and>
    opened_with [O_RDWR, O_CREATE] (events_of w (DoSingleReplace E rp w old new)) = [scratch] \<longrightarrow>
      closed (events_of w (DoSingleReplace E rp w old new)) = [input, input] \<and> input \<noteq> scratch) \<and>
   (opened_with [O_RDWR, O_CREATE] (events_of w (DoSingleReplace E rp w old new)) = [] \<longrightarrow>
      closed (events_of w (DoSingleReplace E rp w old new)) = []) \<and>
   (opened_with [O_RDWR] (events_of w (DoChainReplace E rp w)) = [input] \<and>
    opened_with [O_RDWR, O_CREATE] (events_of w (DoChainReplace E rp w)) = [scratch] \<longrightarrow>
      closed (events_of w (DoChainReplace E rp w)) = [input, input] \<and> input \<noteq> scratch) \<and>
   (opened_with [O_RDWR, O_CREATE] (events_of w (DoChainReplace E rp w)) = [] \<longrightarrow>
      closed (events_of w (DoChainReplace E rp w)) = []) \<and>
   set (closed (events_of w (DoSequentialReplace E rp w))) \<inter>
     set (opened_with [O_RDWR, O_CREATE] (events_of w (DoSequentialReplace E rp w))) = {} \<and>
   (\<forall>f \<in> set (closed (events_of w (DoSequentialReplace E rp w))).
      f \<in> set (opened_with [O_RDWR] (events_of w (DoSequentialReplace E rp w))) \<and>
      count_list (closed (events_of w (DoSequentialReplace E rp w))) f = 2)"
proof -
  obtain res1 rp1 w1 where single: "DoSingleReplace E rp w old new = (res1, rp1, w1)"
    by (cases "DoSingleReplace E rp w old new") auto
  obtain res2 rp2 w2 where chain: "DoChainReplace E rp w = (res2, rp2, w2)"
    by (cases "DoChainReplace E rp w") auto
  from single have s1:
    "(opened_with [O_RDWR] (drop (length (trace w)) (trace w1)) = [input] \<and>
      opened_with [O_RDWR, O_CREATE] (drop (length (trace w)) (trace w1)) = [scratch] \<longrightarrow>
        closed (drop (length (trace w)) (trace w1)) = [input, input] \<and> input \<noteq> scratch) \<and>
     (opened_with [O_RDWR, O_CREATE] (drop (length (trace w)) (trace w1)) = [] \<longrightarrow>
        closed (drop (length (trace w)) (trace w1)) = [])"
    by (cases rule: DoSingleReplace_elim) auto
  from chain have s2:
    "(opened_with [O_RDWR] (drop (length (trace w)) (trace w2)) = [input] \<and>
      opened_with [O_RDWR, O_CREATE] (drop (length (trace w)) (trace w2)) = [scratch] \<longrightarrow>
        closed (drop (length (trace w)) (trace w2)) = [input, input] \<and> input \<noteq> scratch) \<and>
     (opened_with [O_RDWR, O_CREATE] (drop (length (trace w)) (trace w2)) = [] \<longrightarrow>
        closed (drop (length (trace w)) (trace w2)) = [])"
    by (cases rule: DoChainReplace_elim) auto
  from DoSequentialReplace_handles [of w E rp] have s3:
    "set (closed (events_of w (DoSequentialReplace E rp w))) \<inter>
       set (opened_with [O_RDWR, O_CREATE] (events_of w (DoSequentialReplace E rp w))) = {} \<and>
     (\<forall>f \<in> set (closed (events_of w (DoSequentialReplace E rp w))).
        f \<in> set (opened_with [O_RDWR] (events_of w (DoSequentialReplace E rp w))) \<and>
        count_list (closed (events_of w (DoSequentialReplace E rp w))) f = 2)"
    by (simp add: seq_handles_def)
  from s1 s2 s3 single chain show ?thesis
    by (simp add: result_defs)
qed

theorem C4_deferred_close_witness:
  "opened_with [O_RDWR] (events_of sample_world
     (DoChainReplace env_ok sample_replacer sample_world)) = [OsFile 1] \<and>
   opened_with [O_RDWR, O_CREATE] (events_of sample_world
     (DoChainReplace env_ok sample_replacer sample_world)) = [OsFile 2] \<and>
   closed (events_of sample_world
     (DoChainReplace env_ok sample_replacer sample_world)) = [OsFile 1, OsFile 1] \<and>
   closed (events_of sample_world
     (DoSequentialReplace env_shrinking sample_replacer sample_world)) =
     [OsFile 1, OsFile 1, OsFile 3, OsFile 3] \<and>
   opened_with [O_RDWR, O_CREATE] (events_of sample_world
     (DoSequentialReplace env_shrinking sample_replacer sample_world)) = [OsFile 2, OsFile 4] \<and>
   count_list (closed (events_of sample_world
     (DoSequentialReplace env_shrinking sample_replacer sample_world))) (OsFile 3) = 2"
proof -
  have op: "opened_with [O_RDWR] (events_of sample_world
       (DoChainReplace env_ok sample_replacer sample_world)) = [OsFile 1]"
    and cr: "opened_with [O_RDWR, O_CREATE] (events_of sample_world
       (DoChainReplace env_ok sample_replacer sample_world)) = [OsFile 2]"
    by (simp_all add: run_chain_ok result_defs sample_world_trace)
  have cl: "closed (events_of sample_world
       (DoSequentialReplace env_shrinking sample_replacer sample_world)) =
       [OsFile 1, OsFile 1, OsFile 3, OsFile 3]"
    and cr2: "opened_with [O_RDWR, O_CREATE] (events_of sample_world
       (DoSequentialReplace env_shrinking sample_replacer sample_world)) = [OsFile 2, OsFile 4]"
    by (simp_all add: run_sequential_shrinking result_defs sample_world_trace)
  from C4_deferred_close [where E = env_ok and rp = sample_replacer and w = sample_world
      and input = "OsFile 1" and scratch = "OsFile 2"] op cr
  have "closed (events_of sample_world
     (DoChainReplace env_ok sample_replacer sample_world)) = [OsFile 1, OsFile 1]"
    by simp
  moreover
  from C4_deferred_close [where E = env_shrinking and rp = sample_replacer and w = sample_world] cl
  have "count_list (closed (events_of sample_world
     (DoSequentialReplace env_shrinking sample_replacer sample_world))) (OsFile 3) = 2"
    by simp
  ultimately show ?thesis using op cr cl cr2 by simp
qed

section \<open>Keys and Indices stay paired\<close>

text \<open>
  C8. If the list of patterns and the list of replacements of a Replacer have the same
  length, they still have after \<^verbatim>\<open>NewMapping\<close>, \<^verbatim>\<open>NewStringMapping\<close>,
  \<^verbatim>\<open>Reset\<close>, \<^verbatim>\<open>DoSequentialReplace\<close> and \<^verbatim>\<open>DoChainReplace\<close>, whatever their
  outcome; and they have in every Replacer that \<^verbatim>\<open>NewReplacer\<close> returns.
\<close>

theorem C8_mappings_paired:
  "(mappings_paired rp \<longrightarrow>
      mappings_paired (snd (NewMapping rp old new)) \<and>
      mappings_paired (snd (NewStringMapping rp olds news)) \<and>
      mappings_paired (fst (snd (Reset E rp w))) \<and>
      mappings_paired (replacer_after (DoSequentialReplace E rp w)) \<and>
      mappings_paired (replacer_after (DoChainReplace E rp w))) \<and>
   (fst (NewReplacer E fileName w) = Inr rp0 \<longrightarrow> mappings_paired rp0)"
proof (intro conjI impI)
  assume inv: "mappings_paired rp"
  then show "mappings_paired (snd (NewMapping rp old new))"
    by (simp add: NewMapping_def mappings_paired_def set_Mappings_def)
  from inv show "mappings_paired (snd (NewStringMapping rp olds news))"
    by (simp add: NewStringMapping_def mappings_paired_def set_Mappings_def bytes_of_string_def)
  from inv show "mappings_paired (fst (snd (Reset E rp w)))"
    unfolding Reset_def File_Close_def os_defs mappings_paired_def
    by (simp add: Let_def split: option.split sum.split prod.split)
  from DoSequentialReplace_run [of w E rp] inv
  show "mappings_paired (replacer_after (DoSequentialReplace E rp w))"
    by (auto simp: seq_post_def mappings_paired_def split: outcome.splits option.splits)
  obtain res rp' w' where run: "DoChainReplace E rp w = (res, rp', w')"
    by (cases "DoChainReplace E rp w") auto
  from run have "mappings_paired rp'"
    by (cases rule: DoChainReplace_elim)
       (use inv in \<open>simp_all add: mappings_paired_def set_Mappings_def set_FileSize_def\<close>)
  with run show "mappings_paired (replacer_after (DoChainReplace E rp w))"
    by (simp add: replacer_after_def)
next
  assume "fst (NewReplacer E fileName w) = Inr rp0"
  then show "mappings_paired rp0"
    unfolding NewReplacer_def os_defs mappings_paired_def
    by (auto simp: Let_def split: option.splits sum.splits prod.splits)
qed


theorem C8_mappings_paired_witness:
  "mappings_paired sample_replacer \<and>
   mappings_paired (snd (NewMapping sample_replacer [7] [5])) \<and>
   mappings_paired (snd (NewStringMapping sample_replacer ''a'' ''b'')) \<and>
   mappings_paired (fst (snd (Reset env_ok sample_replacer sample_world))) \<and>
   mappings_paired (replacer_after (DoSequentialReplace env_shrinking sample_replacer sample_world)) \<and>
   mappings_paired (replacer_after (DoChainReplace env_ok sample_replacer sample_world)) \<and>
   fst (NewReplacer env_ok ''data/in.txt'' sample_world) =
     Inr \<lparr>Config = \<lparr>File = Some (OsFile 1), FilePath = ''data/in.txt'', FileSize = 10,
                     FilePerm = Perm 420, Asynchronous = False,
                     Mappings = \<lparr>Keys = [], Indices = []\<rparr>\<rparr>\<rparr> \<and>
   mappings_paired
     \<lparr>Config = \<lparr>File = Some (OsFile 1), FilePath = ''data/in.txt'', FileSize = 10,
                FilePerm = Perm 420, Asynchronous = False,
                Mappings = \<lparr>Keys = [], Indices = []\<rparr>\<rparr>\<rparr>"
proof -
  have inv: "mappings_paired sample_replacer"
    by (simp add: mappings_paired_def sample_replacer_def)
  have new: "fst (NewReplacer env_ok ''data/in.txt'' sample_world) =
     Inr \<lparr>Config = \<lparr>File = Some (OsFile 1), FilePath = ''data/in.txt'', FileSize = 10,
                     FilePerm = Perm 420, Asynchronous = False,
                     Mappings = \<lparr>Keys = [], Indices = []\<rparr>\<rparr>\<rparr>"
    by (simp add: run_new_replacer)
  from C8_mappings_paired [where rp = sample_replacer and old = "[7]" and new = "[5]"
      and olds = "''a''" and news = "''b''" and E = env_ok and w = sample_world
      and fileName = "''data/in.txt''"
      and ?rp0.0 = "\<lparr>Config = \<lparr>File = Some (OsFile 1), FilePath = ''data/in.txt'', FileSize = 10,
                     FilePerm = Perm 420, Asynchronous = False,
                     Mappings = \<lparr>Keys = [], Indices = []\<rparr>\<rparr>\<rparr>"] inv new
  have a: "mappings_paired (snd (NewMapping sample_replacer [7] [5])) \<and>
   mappings_paired (snd (NewStringMapping sample_replacer ''a'' ''b'')) \<and>
   mappings_paired (fst (snd (Reset env_ok sample_replacer sample_world))) \<and>
   mappings_paired (replacer_after (DoChainReplace env_ok sample_replacer sample_world)) \<and>
   mappings_paired
     \<lparr>Config = \<lparr>File = Some (OsFile 1), FilePath = ''data/in.txt'', FileSize = 10,
                FilePerm = Perm 420, Asynchronous = False,
                Mappings = \<lparr>Keys = [], Indices = []\<rparr>\<rparr>\<rparr>"
    by simp
  from C8_mappings_paired [where rp = sample_replacer and E = env_shrinking and w = sample_world] inv
  have "mappings_paired (replacer_after (DoSequentialReplace env_shrinking sample_replacer sample_world))"
    by simp
  with a inv new show ?thesis by simp
qed


section \<open>Where the scratch file is created\<close>

text \<open>
  C3. Both engines name the scratch file \<^verbatim>\<open>tmp-gosed-\<close> followed by the clock's
  nanoseconds, and the claim is that both create it in the directory of the working
  file. The sequential engine joins the name to that directory; the chained engine
  opens the bare name. For the working file \<^verbatim>\<open>data/in.txt\<close> and the clock at 42 the
  chained engine creates \<^verbatim>\<open>tmp-gosed-42\<close>, whose directory is \<^verbatim>\<open>.\<close> and not
  \<^verbatim>\<open>data\<close>, where the sequential engine creates \<^verbatim>\<open>data/tmp-gosed-42\<close>.
\<close>

theorem C3_chain_scratch_directory:
  "FilePath (Config sample_replacer) = ''data/in.txt'' \<and>
   path_Dir (FilePath (Config sample_replacer)) = ''data'' \<and>
   created_names (events_of sample_world
     (DoChainReplace env_ok sample_replacer sample_world)) = [''tmp-gosed-42''] \<and>
   path_Dir ''tmp-gosed-42'' = ''.'' \<and>
   path_Dir ''tmp-gosed-42'' \<noteq> path_Dir (FilePath (Config sample_replacer)) \<and>
   created_names (events_of sample_world
     (DoSequentialReplace env_ok sample_replacer sample_world)) =
     [''data/tmp-gosed-42'', ''data/tmp-gosed-42''] \<and>
   path_Dir ''data/tmp-gosed-42'' = path_Dir (FilePath (Config sample_replacer))"
proof -
  have fp: "FilePath (Config sample_replacer) = ''data/in.txt''"
    by (simp add: sample_replacer_def)
  have chain: "created_names (events_of sample_world
     (DoChainReplace env_ok sample_replacer sample_world)) = [''tmp-gosed-42'']"
    by (simp add: run_chain_ok result_defs sample_world_trace tmp_42)
  have seq: "created_names (events_of sample_world
     (DoSequentialReplace env_ok sample_replacer sample_world)) =
     [''data/tmp-gosed-42'', ''data/tmp-gosed-42'']"
    by (simp add: run_sequential_ok result_defs sample_world_trace)
  from fp chain seq show ?thesis
    by (simp add: dir_sample dir_tmp_42 dir_data_tmp_42)
qed


end
